theory Spec2Isabelle
  imports Main
begin

section \<open>Python values shared by the models\<close>

text \<open>
  Exceptions are values. \<open>KeyboardInterrupt\<close> is the one member that is not a subclass
  of Python's \<open>Exception\<close>, so an \<open>except Exception\<close> clause does not catch it.
\<close>

datatype pyexc =
    ValueError | TypeError | IndexError | AttributeError | OSError
  | StopIteration | KeyboardInterrupt

definition is_Exception :: "pyexc \<Rightarrow> bool" where
  "is_Exception e = (e \<noteq> KeyboardInterrupt)"

text \<open>
  A Python \<open>str\<close> is modelled as a \<open>string\<close> whose characters are the code points
  U+0000 to U+00FF, one \<open>char\<close> per code point.
\<close>

definition code_point :: "char \<Rightarrow> nat" where
  "code_point c = of_char c"

text \<open>
  \<open>str.lower()\<close>: on this range the cased letters are A to Z and U+00C0 to U+00DE
  without the multiplication sign U+00D7; each maps 32 code points up.
\<close>

definition lower_char :: "char \<Rightarrow> char" where
  "lower_char c =
     (let n = code_point c in
      if (65 \<le> n \<and> n \<le> 90) \<or> (192 \<le> n \<and> n \<le> 222 \<and> n \<noteq> 215)
      then char_of (n + 32) else c)"

definition lower :: "string \<Rightarrow> string" where
  "lower s = map lower_char s"

text \<open>\<open>t.startswith(s)\<close> and the substring test \<open>s in t\<close>.\<close>

fun startswith :: "string \<Rightarrow> string \<Rightarrow> bool" where
  "startswith t [] = True"
| "startswith [] (c # s) = False"
| "startswith (d # t) (c # s) = (d = c \<and> startswith t s)"

fun str_in :: "string \<Rightarrow> string \<Rightarrow> bool" where
  "str_in s [] = (s = [])"
| "str_in s (d # t) = (startswith (d # t) s \<or> str_in s t)"

section \<open>The builtin float: binary64 values and the conversion from str\<close>

text \<open>
  A float is a finite binary64 value \<open>m * 2 ^ e\<close>, an infinity or a NaN. The sign of a
  zero is not kept: nothing below can observe it.
\<close>

datatype pyfloat = Finite int int | PosInf | NegInf | NaN

fun bit_length :: "nat \<Rightarrow> nat" where
  "bit_length n = (if n = 0 then 0 else Suc (bit_length (n div 2)))"

text \<open>\<open>ratio_ge_pow2 n d k\<close> is \<open>2 ^ k \<le> n / d\<close>, in integer arithmetic.\<close>

definition ratio_ge_pow2 :: "nat \<Rightarrow> nat \<Rightarrow> int \<Rightarrow> bool" where
  "ratio_ge_pow2 n d k =
     (if 0 \<le> k then d * 2 ^ nat k \<le> n else d \<le> n * 2 ^ nat (- k))"

definition ilog2_ratio :: "nat \<Rightarrow> nat \<Rightarrow> int" where
  "ilog2_ratio n d =
     (let k = int (bit_length n) - int (bit_length d)
      in if ratio_ge_pow2 n d k then k else k - 1)"

text \<open>
  Round the positive rational \<open>n / d\<close> to the nearest binary64 value, ties to even:
  53 significant bits, least exponent \<open>-1074\<close>. The result \<open>Some (q, E)\<close> stands for
  \<open>q * 2 ^ E\<close>; \<open>None\<close> is overflow, which IEEE 754 rounds to an infinity.
\<close>

definition round_binary64 :: "nat \<Rightarrow> nat \<Rightarrow> (nat \<times> int) option" where
  "round_binary64 n d =
     (let E = max (ilog2_ratio n d - 52) (- 1074);
          num = (if E < 0 then n * 2 ^ nat (- E) else n);
          den = (if E < 0 then d else d * 2 ^ nat E);
          q = num div den;
          r = num mod den;
          q' = (if den < 2 * r \<or> (2 * r = den \<and> odd q) then q + 1 else q)
      in if 0 \<le> E \<and> 2 ^ 1024 \<le> q' * 2 ^ nat E then None else Some (q', E))"

definition float_of_ratio :: "bool \<Rightarrow> nat \<Rightarrow> nat \<Rightarrow> pyfloat" where
  "float_of_ratio negative n d =
     (if n = 0 then Finite 0 0
      else case round_binary64 n d of
             None \<Rightarrow> (if negative then NegInf else PosInf)
           | Some (q, E) \<Rightarrow> Finite (if negative then - int q else int q) E)"

text \<open>The decimal \<open>m * 10 ^ x\<close>, as a float literal or a parsed string denotes it.\<close>

definition float_of_decimal :: "bool \<Rightarrow> nat \<Rightarrow> int \<Rightarrow> pyfloat" where
  "float_of_decimal negative m x =
     (if 0 \<le> x then float_of_ratio negative (m * 10 ^ nat x) 1
      else float_of_ratio negative m (10 ^ nat (- x)))"

text \<open>The exact dyadic \<open>m * 2 ^ e\<close>, rounded: the result of an arithmetic operation.\<close>

definition float_of_dyadic :: "int \<Rightarrow> int \<Rightarrow> pyfloat" where
  "float_of_dyadic m e =
     (if 0 \<le> e then float_of_ratio (m < 0) (nat \<bar>m\<bar> * 2 ^ nat e) 1
      else float_of_ratio (m < 0) (nat \<bar>m\<bar>) (2 ^ nat (- e)))"

fun float_sub :: "pyfloat \<Rightarrow> pyfloat \<Rightarrow> pyfloat" where
  "float_sub NaN y = NaN"
| "float_sub x NaN = NaN"
| "float_sub PosInf PosInf = NaN"
| "float_sub NegInf NegInf = NaN"
| "float_sub PosInf y = PosInf"
| "float_sub NegInf y = NegInf"
| "float_sub x PosInf = NegInf"
| "float_sub x NegInf = PosInf"
| "float_sub (Finite m1 e1) (Finite m2 e2) =
     (let e = min e1 e2
      in float_of_dyadic (m1 * 2 ^ nat (e1 - e) - m2 * 2 ^ nat (e2 - e)) e)"

fun float_abs :: "pyfloat \<Rightarrow> pyfloat" where
  "float_abs (Finite m e) = Finite \<bar>m\<bar> e"
| "float_abs PosInf = PosInf"
| "float_abs NegInf = PosInf"
| "float_abs NaN = NaN"

fun float_lt :: "pyfloat \<Rightarrow> pyfloat \<Rightarrow> bool" where
  "float_lt NaN y = False"
| "float_lt x NaN = False"
| "float_lt PosInf y = False"
| "float_lt x NegInf = False"
| "float_lt NegInf y = True"
| "float_lt x PosInf = True"
| "float_lt (Finite m1 e1) (Finite m2 e2) =
     (let e = min e1 e2 in m1 * 2 ^ nat (e1 - e) < m2 * 2 ^ nat (e2 - e))"

subsection \<open>float(str)\<close>

definition is_digit :: "char \<Rightarrow> bool" where
  "is_digit c = (48 \<le> code_point c \<and> code_point c \<le> 57)"

definition digits_val :: "string \<Rightarrow> nat" where
  "digits_val s = foldl (\<lambda>a c. 10 * a + (code_point c - 48)) 0 s"

text \<open>
  Whitespace that float strips: the ASCII set of C, and the two spaces of the range,
  U+0085 and U+00A0, which the conversion first turns into blanks.
\<close>

definition is_space :: "char \<Rightarrow> bool" where
  "is_space c = (let n = code_point c in (9 \<le> n \<and> n \<le> 13) \<or> n = 32 \<or> n = 133 \<or> n = 160)"

definition strip :: "string \<Rightarrow> string" where
  "strip s = rev (dropWhile is_space (rev (dropWhile is_space s)))"

text \<open>
  An underscore is accepted only between two digits and is then dropped. The first
  argument is the previous character.
\<close>

fun drop_underscores :: "char \<Rightarrow> string \<Rightarrow> string option" where
  "drop_underscores prev [] = (if prev = CHR ''_'' then None else Some [])"
| "drop_underscores prev (c # cs) =
     (if c = CHR ''_'' then (if is_digit prev then drop_underscores c cs else None)
      else if prev = CHR ''_'' \<and> \<not> is_digit c then None
      else map_option (Cons c) (drop_underscores c cs))"

definition split_sign :: "string \<Rightarrow> bool \<times> string" where
  "split_sign s =
     (case s of
        [] \<Rightarrow> (False, [])
      | c # t \<Rightarrow> if c = CHR ''-'' then (True, t) else if c = CHR ''+'' then (False, t)
                 else (False, s))"

text \<open>The exponent part: empty, or \<open>e\<close>/\<open>E\<close>, an optional sign and at least one digit.\<close>

definition parse_exponent :: "string \<Rightarrow> int option" where
  "parse_exponent s =
     (case s of
        [] \<Rightarrow> Some 0
      | c # t \<Rightarrow>
          if c = CHR ''e'' \<or> c = CHR ''E'' then
            (let (negative, u) = split_sign t
             in if u \<noteq> [] \<and> list_all is_digit u
                then Some (if negative then - int (digits_val u) else int (digits_val u))
                else None)
          else None)"

text \<open>
  An unsigned decimal number: digits, an optional point and digits, at least one digit
  in all, then the exponent part. The result is the pair \<open>(m, x)\<close> of \<open>m * 10 ^ x\<close>.
\<close>

definition parse_decimal :: "string \<Rightarrow> (nat \<times> int) option" where
  "parse_decimal s =
     (let ip = takeWhile is_digit s;
          r1 = dropWhile is_digit s;
          has_point = (r1 \<noteq> [] \<and> hd r1 = CHR ''.'');
          fp = (if has_point then takeWhile is_digit (tl r1) else []);
          r2 = (if has_point then dropWhile is_digit (tl r1) else r1)
      in if ip = [] \<and> fp = [] then None
         else case parse_exponent r2 of
                None \<Rightarrow> None
              | Some x \<Rightarrow> Some (digits_val (ip @ fp), x - int (length fp)))"

definition py_float :: "string \<Rightarrow> pyexc + pyfloat" where
  "py_float s =
     (if list_ex (\<lambda>c. 127 \<le> code_point c \<and> \<not> is_space c) s then Inl ValueError
      else case drop_underscores (CHR 0x00) s of
        None \<Rightarrow> Inl ValueError
      | Some s1 \<Rightarrow>
          (let (negative, u) = split_sign (strip s1) in
           if lower u = ''inf'' \<or> lower u = ''infinity''
           then Inr (if negative then NegInf else PosInf)
           else if lower u = ''nan'' then Inr NaN
           else case parse_decimal u of
                  None \<Rightarrow> Inl ValueError
                | Some (m, x) \<Rightarrow> Inr (float_of_decimal negative m x)))"

section \<open>clinical\_compare.py\<close>

text \<open>
  The \<open>try\<close> block of \<open>values_are_equivalent\<close>: both conversions, then the test
  \<open>abs(num1 - num2) < 1e-6\<close>. An exception of either conversion leaves the block.
\<close>

definition numeric_close :: "string \<Rightarrow> string \<Rightarrow> pyexc + bool" where
  "numeric_close val1 val2 =
     (case py_float val1 of
        Inl e \<Rightarrow> Inl e
      | Inr num1 \<Rightarrow>
          (case py_float val2 of
             Inl e \<Rightarrow> Inl e
           | Inr num2 \<Rightarrow>
               Inr (float_lt (float_abs (float_sub num1 num2))
                             (float_of_decimal False 1 (- 6)))))"

text \<open>The last step: containment of the lowercased strings, either way round.\<close>

definition contained :: "string \<Rightarrow> string \<Rightarrow> bool" where
  "contained val1 val2 =
     (let val1_lower = lower val1; val2_lower = lower val2
      in str_in val1_lower val2_lower \<or> str_in val2_lower val1_lower)"

definition values_are_equivalent :: "string \<Rightarrow> string \<Rightarrow> pyexc + bool" where
  "values_are_equivalent val1 val2 =
     (if val1 = val2 then Inr True
      else if lower val1 = lower val2 then Inr True
      else case numeric_close val1 val2 of
             Inr True \<Rightarrow> Inr True
           | Inr False \<Rightarrow> Inr (contained val1 val2)
           | Inl e \<Rightarrow>
               if e = ValueError \<or> e = TypeError then Inr (contained val1 val2)
               else Inl e)"

text \<open>
  The column loop of \<open>compare_tsv_tables\<close> for one pair of rows. A row maps a column
  to its cell; a missing cell (\<open>pd.notna\<close> is false) reads as the empty string.
\<close>

record difference =
  column :: string
  table1_value :: string
  table2_value :: string

definition cell :: "(string \<rightharpoonup> string) \<Rightarrow> string \<Rightarrow> string" where
  "cell row col = (case row col of None \<Rightarrow> [] | Some v \<Rightarrow> v)"

fun row_differences ::
  "(string \<rightharpoonup> string) \<Rightarrow> (string \<rightharpoonup> string) \<Rightarrow> string list \<Rightarrow> pyexc + difference list"
where
  "row_differences row1 row2 [] = Inr []"
| "row_differences row1 row2 (col # cols) =
     (let val1 = cell row1 col; val2 = cell row2 col
      in case values_are_equivalent val1 val2 of
           Inl e \<Rightarrow> Inl e
         | Inr same \<Rightarrow>
             (case row_differences row1 row2 cols of
                Inl e \<Rightarrow> Inl e
              | Inr rest \<Rightarrow>
                  Inr (if same then rest
                       else \<lparr>column = col, table1_value = val1, table2_value = val2\<rparr> # rest)))"

section \<open>patcher.py\<close>

subsection \<open>os.path, as posixpath defines it\<close>

text \<open>\<open>p.rfind(c)\<close>: the last index of \<open>c\<close>, or \<open>-1\<close>.\<close>

definition rfind :: "string \<Rightarrow> char \<Rightarrow> int" where
  "rfind p c =
     (if c \<in> set p
      then int (length p) - 1 - int (length (takeWhile (\<lambda>x. x \<noteq> c) (rev p)))
      else - 1)"

definition basename :: "string \<Rightarrow> string" where
  "basename p = drop (nat (rfind p (CHR ''/'') + 1)) p"

text \<open>
  \<open>splitext\<close> splits at the last dot when that dot comes after the last slash and
  some character between the two is not a dot (leading dots are no extension).
\<close>

definition splitext :: "string \<Rightarrow> string \<times> string" where
  "splitext p =
     (let sepIndex = rfind p (CHR ''/'');
          dotIndex = rfind p (CHR ''.'')
      in if sepIndex < dotIndex \<and>
            list_ex (\<lambda>c. c \<noteq> CHR ''.'')
              (take (nat (dotIndex - (sepIndex + 1))) (drop (nat (sepIndex + 1)) p))
         then (take (nat dotIndex) p, drop (nat dotIndex) p)
         else (p, []))"

definition join :: "string \<Rightarrow> string \<Rightarrow> string" where
  "join a b =
     (if startswith b ''/'' then b
      else if a = [] \<or> last a = CHR ''/'' then a @ b
      else a @ ''/'' @ b)"

subsection \<open>The slide library and the operating system, as oracles\<close>

text \<open>
  An entry of the slide list is a path or a pair of paths (slide, annotation).
\<close>

datatype slide = Path string | Pair string string

text \<open>
  What wsipre, uuid and PIL answer is not decided by this code. Each call is identified by
  a key \<open>'k\<close>; the answer to each call is arbitrary. \<open>'p\<close> is the type of images,
  \<open>'a\<close> of annotations. \<open>read_random_patch\<close> covers opening the slide: \<open>Inr None\<close>
  is a slide with an empty label list. \<open>patch_eq_str\<close> is \<open>==\<close> between an image and a
  string; \<open>uuid4_hex\<close> is \<open>uuid.uuid4().hex\<close>; \<open>save_error\<close> is the exception of
  \<open>Image.save\<close>, if any. Slide level and patch size only reach the library and are
  left to the oracle.
\<close>

record ('k, 'p, 'a) world =
  read_random_tissue_patch :: "'k \<Rightarrow> string \<Rightarrow> pyexc + 'p option"
  read_random_patch :: "'k \<Rightarrow> string \<Rightarrow> string \<Rightarrow> pyexc + ('p \<times> 'a) option"
  patch_eq_str :: "'p \<Rightarrow> string \<Rightarrow> bool"
  uuid4_hex :: "'k \<Rightarrow> string"
  save_error :: "'k \<Rightarrow> string \<Rightarrow> pyexc option"

text \<open>What the two private getters return: a message, a pair or a triple.\<close>

datatype ('p, 'a) result = Message string | Patch 'p string | Annotated 'p 'a string

subsection \<open>PatchGenerator\<close>

record patch_generator =
  slide_files :: "slide list"
  random_tissue_patch :: bool
  return_annotation :: bool
  n :: nat
  i :: nat

definition reset :: "patch_generator \<Rightarrow> patch_generator" where
  "reset self = self\<lparr>i := 0\<rparr>"

definition PatchGenerator_init :: "slide list \<Rightarrow> bool \<Rightarrow> bool \<Rightarrow> patch_generator" where
  "PatchGenerator_init files tissue annotation =
     (reset \<lparr>slide_files = files, random_tissue_patch = tissue,
             return_annotation = annotation, n = 0, i = 0\<rparr>)
     \<lparr>n := length files\<rparr>"

text \<open>
  \<open>wsi_file, xml_file = selected_slide\<close>: a pair unpacks; a string unpacks only when
  it has two characters, and raises ValueError otherwise.
\<close>

definition unpack_slide :: "slide \<Rightarrow> pyexc + string \<times> string" where
  "unpack_slide selected_slide =
     (case selected_slide of
        Pair wsi_file xml_file \<Rightarrow> Inr (wsi_file, xml_file)
      | Path s \<Rightarrow> if length s = 2 then Inr ([s ! 0], [s ! 1]) else Inl ValueError)"

definition get_random_patch ::
  "('k, 'p, 'a) world \<Rightarrow> 'k \<Rightarrow> patch_generator \<Rightarrow> slide \<Rightarrow> pyexc + ('p, 'a) result"
where
  "get_random_patch w k self selected_slide =
     (case unpack_slide selected_slide of
        Inl e \<Rightarrow> Inl e
      | Inr (wsi_file, xml_file) \<Rightarrow>
          (case read_random_patch w k wsi_file xml_file of
             Inl e \<Rightarrow> Inl e
           | Inr None \<Rightarrow> Inr (Message ''No tumor annotations found.'')
           | Inr (Some (patch, annotation)) \<Rightarrow>
               if return_annotation self
               then Inr (Annotated patch annotation (basename wsi_file))
               else Inr (Patch patch (basename wsi_file))))"

definition get_random_tissue_patch ::
  "('k, 'p, 'a) world \<Rightarrow> 'k \<Rightarrow> slide \<Rightarrow> pyexc + ('p, 'a) result"
where
  "get_random_tissue_patch w k selected_slide =
     (let wsi_file = (case selected_slide of Pair f x \<Rightarrow> f | Path f \<Rightarrow> f)
      in case read_random_tissue_patch w k wsi_file of
           Inl e \<Rightarrow> Inl e
         | Inr None \<Rightarrow> Inl IndexError
         | Inr (Some patch) \<Rightarrow> Inr (Patch patch (basename wsi_file)))"

text \<open>\<open>self.slide_files[self.i]\<close> raises IndexError out of range.\<close>

definition slide_at :: "patch_generator \<Rightarrow> pyexc + slide" where
  "slide_at self =
     (if i self < length (slide_files self) then Inr (slide_files self ! i self)
      else Inl IndexError)"

text \<open>The body of the \<open>try\<close> up to the assignment of \<open>result\<close>; the key is the cursor.\<close>

definition fetch ::
  "(nat, 'p, 'a) world \<Rightarrow> patch_generator \<Rightarrow> pyexc + ('p, 'a) result"
where
  "fetch w self =
     (case slide_at self of
        Inl e \<Rightarrow> Inl e
      | Inr selected_slide \<Rightarrow>
          if random_tissue_patch self then get_random_tissue_patch w (i self) selected_slide
          else get_random_patch w (i self) self selected_slide)"

text \<open>
  \<open>isinstance(result, tuple) and result[0] == 'No valid tissue pixels found.'\<close>
\<close>

definition invalid_patch :: "('k, 'p, 'a) world \<Rightarrow> ('p, 'a) result \<Rightarrow> bool" where
  "invalid_patch w r =
     (case r of
        Message s \<Rightarrow> False
      | Patch p f \<Rightarrow> patch_eq_str w p ''No valid tissue pixels found.''
      | Annotated p a f \<Rightarrow> patch_eq_str w p ''No valid tissue pixels found.'')"

text \<open>
  \<open>__next__\<close>, for one thread (the lock is not modelled). It returns the generator
  and either the result or the exception that leaves the call.
\<close>

function (sequential) next_patch ::
  "(nat, 'p, 'a) world \<Rightarrow> patch_generator \<Rightarrow> patch_generator \<times> (pyexc + ('p, 'a) result)"
where
  "next_patch w self =
     (if i self < n self then
        (case fetch w self of
           Inr r \<Rightarrow>
             (let self' = self\<lparr>i := i self + 1\<rparr>
              in if invalid_patch w r then next_patch w self' else (self', Inr r))
         | Inl e \<Rightarrow>
             if e = IndexError then next_patch w (self\<lparr>i := i self + 1\<rparr>)
             else if is_Exception e then next_patch w (self\<lparr>i := i self + 1\<rparr>)
             else (self, Inl e))
      else (reset self, Inl StopIteration))"
  by pat_completeness auto
termination
  by (relation "measure (\<lambda>(w, self). n self - i self)") auto

declare next_patch.simps [simp del]

text \<open>
  The slide under the cursor is passed over: getting its patch raises an \<open>Exception\<close>,
  or gives a patch that the test above rejects.
\<close>

definition skipped :: "(nat, 'p, 'a) world \<Rightarrow> patch_generator \<Rightarrow> bool" where
  "skipped w self =
     (case fetch w self of Inl e \<Rightarrow> is_Exception e | Inr r \<Rightarrow> invalid_patch w r)"

text \<open>
  A series of calls of \<open>__next__\<close>, with one world for each call: the library may
  answer differently every time.
\<close>

fun next_calls :: "(nat, 'p, 'a) world list \<Rightarrow> patch_generator \<Rightarrow> patch_generator" where
  "next_calls [] self = self"
| "next_calls (w # ws) self = next_calls ws (fst (next_patch w self))"

subsection \<open>OfflinePatcher\<close>

text \<open>
  The lines printed to standard output, the directories that exist and the image files
  written, in the order of writing.
\<close>

datatype event =
    Banner
  | Processing string
  | Progress int int
  | PatchFailed int slide pyexc
  | InterruptedSaved
  | Newline

record 'p env =
  dirs :: "string set"
  written :: "(string \<times> 'p) list"
  stdout :: "event list"

definition print :: "event \<Rightarrow> 'p env \<Rightarrow> 'p env" where
  "print ev env = env\<lparr>stdout := stdout env @ [ev]\<rparr>"

text \<open>
  The object. Its list of slides is the field \<open>slide_files\<close> of the source, renamed
  because the generator has a field of that name. A \<open>patch\<close> of \<open>None\<close> is an
  attribute not yet assigned.
\<close>

record 'p offline_patcher =
  patcher_slide_files :: "slide list"
  target_dir :: string
  file_format :: string
  filename :: "string option"
  patch :: "'p option"
  patch_gen :: patch_generator

text \<open>
  \<open>__init__\<close>. \<open>makedirs_error\<close> is the exception of \<open>os.makedirs\<close>, if any;
  \<open>tissue\<close> is the parameter \<open>get_random_tissue_patch\<close>.
\<close>

definition OfflinePatcher_init ::
  "pyexc option \<Rightarrow> 'p env \<Rightarrow> slide list \<Rightarrow> string \<Rightarrow> bool
   \<Rightarrow> pyexc + ('p offline_patcher \<times> 'p env)"
where
  "OfflinePatcher_init makedirs_error env files dir tissue =
     (let self = \<lparr>patcher_slide_files = files, target_dir = dir, file_format = ''png'',
                  filename = None, patch = None,
                  patch_gen = PatchGenerator_init files tissue False\<rparr>
      in if dir \<in> dirs env then Inr (self, env)
         else case makedirs_error of
                Some e \<Rightarrow> Inl e
              | None \<Rightarrow> Inr (self, env\<lparr>dirs := insert dir (dirs env)\<rparr>))"

text \<open>\<open>_compose_path\<close>; \<open>os.path.splitext(None)\<close> raises TypeError.\<close>

definition compose_path ::
  "('k, 'p, 'a) world \<Rightarrow> 'k \<Rightarrow> 'p offline_patcher \<Rightarrow> pyexc + string"
where
  "compose_path w k self =
     (let unique_id = take 5 (uuid4_hex w k)
      in case filename self of
           None \<Rightarrow> Inl TypeError
         | Some f \<Rightarrow>
             (let slide_file_name = fst (splitext f);
                  slide_file_name = fst (splitext slide_file_name);
                  unique_name = slide_file_name @ ''_'' @ unique_id;
                  unique_name = unique_name @ ''.'' @ lower (file_format self)
              in Inr (join (target_dir self) unique_name)))"

text \<open>\<open>_save\<close>: \<open>self.patch.save(path)\<close>.\<close>

definition save ::
  "('k, 'p, 'a) world \<Rightarrow> 'k \<Rightarrow> 'p offline_patcher \<Rightarrow> 'p env \<Rightarrow> string \<Rightarrow> pyexc + 'p env"
where
  "save w k self env path =
     (case patch self of
        None \<Rightarrow> Inl AttributeError
      | Some p \<Rightarrow>
          (case save_error w k path of
             Some e \<Rightarrow> Inl e
           | None \<Rightarrow> Inr (env\<lparr>written := written env @ [(path, p)]\<rparr>)))"

text \<open>
  \<open>patch, self.filename = ...\<close>: only a pair unpacks. The one message the getters
  return has 27 characters, so unpacking a message raises ValueError.
\<close>

definition unpack_result :: "('p, 'a) result \<Rightarrow> pyexc + 'p \<times> string" where
  "unpack_result r =
     (case r of
        Patch p f \<Rightarrow> Inr (p, f)
      | Annotated p a f \<Rightarrow> Inl ValueError
      | Message s \<Rightarrow> Inl ValueError)"

text \<open>
  The calls of \<open>run\<close> are keyed by slide index and draw index; the save in the
  interrupt handler has a key of its own.
\<close>

datatype key = Draw nat nat | Interrupt

text \<open>
  The body of the inner \<open>try\<close>. The first component is the exception that leaves the
  body, if any; the object and the environment are as the body left them.
\<close>

definition attempt ::
  "(key, 'p, 'a) world \<Rightarrow> key \<Rightarrow> slide \<Rightarrow> 'p offline_patcher \<times> 'p env
   \<Rightarrow> pyexc option \<times> 'p offline_patcher \<times> 'p env"
where
  "attempt w k slide_file st =
     (let (self, env) = st in
      case (if random_tissue_patch (patch_gen self)
            then get_random_tissue_patch w k slide_file
            else get_random_patch w k (patch_gen self) slide_file) of
        Inl e \<Rightarrow> (Some e, self, env)
      | Inr r \<Rightarrow>
          (case unpack_result r of
             Inl e \<Rightarrow> (Some e, self, env)
           | Inr (p, f) \<Rightarrow>
               (let self = self\<lparr>filename := Some f\<rparr>;
                    self = self\<lparr>patch := Some p\<rparr>
                in case compose_path w k self of
                     Inl e \<Rightarrow> (Some e, self, env)
                   | Inr file_path \<Rightarrow>
                       (case save w k self env file_path of
                          Inl e \<Rightarrow> (Some e, self, env)
                        | Inr env' \<Rightarrow> (None, self, env')))))"

text \<open>
  \<open>for i in range(n)\<close> for the slide of index \<open>s\<close>: \<open>draws w num s slide_file m j\<close>
  runs the \<open>m\<close> iterations from \<open>i = j\<close> on. An \<open>Exception\<close> prints and breaks; any
  other exception leaves the loop.
\<close>

fun draws ::
  "(key, 'p, 'a) world \<Rightarrow> int \<Rightarrow> nat \<Rightarrow> slide \<Rightarrow> nat \<Rightarrow> nat
   \<Rightarrow> 'p offline_patcher \<times> 'p env \<Rightarrow> pyexc option \<times> 'p offline_patcher \<times> 'p env"
where
  "draws w num s slide_file 0 j st = (None, st)"
| "draws w num s slide_file (Suc m) j st =
     (let (self, env) = st;
          env = print (Progress (int j + 1) num) env
      in case attempt w (Draw s j) slide_file (self, env) of
           (None, st') \<Rightarrow> draws w num s slide_file m (j + 1) st'
         | (Some e, self', env') \<Rightarrow>
             if is_Exception e
             then (None, self', print (PatchFailed (int j + 1) slide_file e) env')
             else (Some e, self', env'))"

text \<open>
  \<open>for slide_file in self.slide_files\<close>, from the slide of index \<open>s\<close> on.
  \<open>os.path.basename\<close> of a pair raises TypeError.
\<close>

fun slides_loop ::
  "(key, 'p, 'a) world \<Rightarrow> int \<Rightarrow> nat \<Rightarrow> slide list
   \<Rightarrow> 'p offline_patcher \<times> 'p env \<Rightarrow> pyexc option \<times> 'p offline_patcher \<times> 'p env"
where
  "slides_loop w num s [] st = (None, st)"
| "slides_loop w num s (slide_file # rest) st =
     (case slide_file of
        Pair f x \<Rightarrow> (Some TypeError, st)
      | Path f \<Rightarrow>
          (let (self, env) = st;
               env = print (Processing (basename f)) env
           in case draws w num s slide_file (nat num) 0 (self, env) of
                (None, st') \<Rightarrow> slides_loop w num (s + 1) rest st'
              | (Some e, st') \<Rightarrow> (Some e, st')))"

text \<open>\<open>run\<close>: the exception that leaves the call, if any, the object and the environment.\<close>

definition run ::
  "(key, 'p, 'a) world \<Rightarrow> int \<Rightarrow> 'p offline_patcher \<Rightarrow> 'p env
   \<Rightarrow> pyexc option \<times> 'p offline_patcher \<times> 'p env"
where
  "run w num self env =
     (case slides_loop w num 0 (patcher_slide_files self) (self, print Banner env) of
        (None, self', env') \<Rightarrow> (None, self', print Newline env')
      | (Some e, self', env') \<Rightarrow>
          if e = KeyboardInterrupt then
            (case compose_path w Interrupt self' of
               Inl e' \<Rightarrow> (Some e', self', env')
             | Inr file_path \<Rightarrow>
                 (case save w Interrupt self' env' file_path of
                    Inl e' \<Rightarrow> (Some e', self', env')
                  | Inr env'' \<Rightarrow> (None, self', print Newline (print InterruptedSaved env''))))
          else (Some e, self', env'))"


subsection \<open>The shape of a composed name\<close>

text \<open>
  An extension, as \<open>splitext\<close> splits it off: empty, or a dot followed by characters
  other than dots. A hexadecimal digit, as \<open>uuid.uuid4().hex\<close> is made of.
\<close>

definition is_extension :: "string \<Rightarrow> bool" where
  "is_extension x = (x = [] \<or> (hd x = CHR ''.'' \<and> CHR ''.'' \<notin> set (tl x)))"

definition is_hex :: "char \<Rightarrow> bool" where
  "is_hex c = (is_digit c \<or> (97 \<le> code_point c \<and> code_point c \<le> 102))"

subsection \<open>What a run writes and prints, draw by draw\<close>

text \<open>
  The statement of what \<open>run\<close> does, to compare with the loops above. One draw, for
  the slide of index \<open>s\<close> and the draw of index \<open>j\<close>, either ends with an exception or
  writes one file: \<open>outcome\<close> is which, read off the body of the inner \<open>try\<close>. It
  depends on the object only through the fields that \<open>run\<close> never assigns.
\<close>

definition outcome ::
  "(key, 'p, 'a) world \<Rightarrow> 'p offline_patcher \<Rightarrow> key \<Rightarrow> slide \<Rightarrow> pyexc + string \<times> 'p"
where
  "outcome w self k slide_file =
     (case (if random_tissue_patch (patch_gen self)
            then get_random_tissue_patch w k slide_file
            else get_random_patch w k (patch_gen self) slide_file) of
        Inl e \<Rightarrow> Inl e
      | Inr r \<Rightarrow>
          (case unpack_result r of
             Inl e \<Rightarrow> Inl e
           | Inr (p, f) \<Rightarrow>
               (case compose_path w k (self\<lparr>filename := Some f\<rparr>) of
                  Inl e \<Rightarrow> Inl e
                | Inr file_path \<Rightarrow>
                    (case save_error w k file_path of
                       Some e \<Rightarrow> Inl e
                     | None \<Rightarrow> Inr (file_path, p)))))"

definition config ::
  "'p offline_patcher \<Rightarrow> slide list \<times> string \<times> string \<times> patch_generator" where
  "config self = (patcher_slide_files self, target_dir self, file_format self, patch_gen self)"

text \<open>The outcomes of the draws \<open>0\<close> to \<open>num - 1\<close> of one slide, were all of them made.\<close>

definition outcomes ::
  "(key, 'p, 'a) world \<Rightarrow> 'p offline_patcher \<Rightarrow> int \<Rightarrow> nat \<Rightarrow> slide \<Rightarrow> (pyexc + string \<times> 'p) list"
where
  "outcomes w self num s slide_file =
     map (\<lambda>j. outcome w self (Draw s j) slide_file) [0..<nat num]"

text \<open>
  The amended claim for one slide, on the list of the outcomes of its draws: the draws
  are made in order up to the first one that fails; each draw before it is saved; the
  rest of the draws are not made. \<open>kept\<close> is the files written. \<open>progress_lines\<close> is
  the lines printed, one for each draw made and one more for the failure, when the first
  draw has index \<open>j\<close>.
\<close>

definition kept :: "(pyexc + 'b) list \<Rightarrow> 'b list" where
  "kept os = map projr (takeWhile (\<lambda>r. \<not> isl r) os)"

definition progress_lines :: "int \<Rightarrow> slide \<Rightarrow> nat \<Rightarrow> (pyexc + 'b) list \<Rightarrow> event list" where
  "progress_lines num slide_file j os =
     (let good = length (takeWhile (\<lambda>r. \<not> isl r) os)
      in map (\<lambda>c. Progress (int c + 1) num) [j..<j + min (length os) (good + 1)] @
         (if good < length os
          then [PatchFailed (int (j + good) + 1) slide_file (projl (os ! good))]
          else []))"

definition saved_files ::
  "(key, 'p, 'a) world \<Rightarrow> 'p offline_patcher \<Rightarrow> int \<Rightarrow> nat \<Rightarrow> slide \<Rightarrow> (string \<times> 'p) list"
where
  "saved_files w self num s slide_file = kept (outcomes w self num s slide_file)"

definition printed_lines ::
  "(key, 'p, 'a) world \<Rightarrow> 'p offline_patcher \<Rightarrow> int \<Rightarrow> nat \<Rightarrow> slide \<Rightarrow> event list"
where
  "printed_lines w self num s slide_file =
     progress_lines num slide_file 0 (outcomes w self num s slide_file)"

definition slide_name :: "slide \<Rightarrow> string" where
  "slide_name slide_file = (case slide_file of Path f \<Rightarrow> basename f | Pair f x \<Rightarrow> [])"

text \<open>No call of the library or of \<open>Image.save\<close> is cut short by a KeyboardInterrupt.\<close>

definition interrupt_free :: "('k, 'p, 'a) world \<Rightarrow> bool" where
  "interrupt_free w =
     ((\<forall>k f. read_random_tissue_patch w k f \<noteq> Inl KeyboardInterrupt) \<and>
      (\<forall>k f x. read_random_patch w k f x \<noteq> Inl KeyboardInterrupt) \<and>
      (\<forall>k p. save_error w k p \<noteq> Some KeyboardInterrupt))"

definition is_path :: "slide \<Rightarrow> bool" where
  "is_path slide_file = (case slide_file of Path f \<Rightarrow> True | Pair f x \<Rightarrow> False)"

subsection \<open>Worlds and objects for examples\<close>

text \<open>
  In \<open>failing_world\<close> every read of a slide raises OSError. In \<open>mixed_world\<close> the
  read with key 0 raises OSError and every other read of a tissue patch gives the image 7.
\<close>

definition failing_world :: "('k, nat, unit) world" where
  "failing_world =
     \<lparr>read_random_tissue_patch = (\<lambda>k f. Inl OSError),
      read_random_patch = (\<lambda>k f x. Inl OSError),
      patch_eq_str = (\<lambda>p s. False),
      uuid4_hex = (\<lambda>k. ''0123456789abcdef0123456789abcdef''),
      save_error = (\<lambda>k p. None)\<rparr>"

definition mixed_world :: "(nat, nat, unit) world" where
  "mixed_world =
     \<lparr>read_random_tissue_patch = (\<lambda>k f. if k = 0 then Inl OSError else Inr (Some 7)),
      read_random_patch = (\<lambda>k f x. Inl OSError),
      patch_eq_str = (\<lambda>p s. False),
      uuid4_hex = (\<lambda>k. ''0123456789abcdef0123456789abcdef''),
      save_error = (\<lambda>k p. None)\<rparr>"

definition two_slides :: patch_generator where
  "two_slides = PatchGenerator_init [Path ''a.svs'', Path ''b.svs''] True False"

text \<open>An environment with no directory, a list of one slide, and the patcher made for it.\<close>

definition empty_env :: "nat env" where
  "empty_env = \<lparr>dirs = {}, written = [], stdout = []\<rparr>"

definition one_slide :: "slide list" where
  "one_slide = [Path ''slides/TCGA-01.abc.svs'']"

definition example_patcher :: "nat offline_patcher" where
  "example_patcher =
     \<lparr>patcher_slide_files = one_slide, target_dir = ''patches'', file_format = ''png'',
      filename = None, patch = None, patch_gen = PatchGenerator_init one_slide True False\<rparr>"

text \<open>
  In \<open>first_draw_fails\<close> only the first draw of the first slide fails; every other draw
  gives the image 7. \<open>two_slide_patcher\<close> is a patcher for two slides.
\<close>

definition first_draw_fails :: "(key, nat, unit) world" where
  "first_draw_fails =
     \<lparr>read_random_tissue_patch = (\<lambda>k f. if k = Draw 0 0 then Inl OSError else Inr (Some 7)),
      read_random_patch = (\<lambda>k f x. Inl OSError),
      patch_eq_str = (\<lambda>p s. False),
      uuid4_hex = (\<lambda>k. if k = Draw 1 1 then ''fedcba9876543210fedcba9876543210''
                        else ''0123456789abcdef0123456789abcdef''),
      save_error = (\<lambda>k p. None)\<rparr>"

definition two_slide_patcher :: "nat offline_patcher" where
  "two_slide_patcher =
     \<lparr>patcher_slide_files = [Path ''slides/a.svs'', Path ''slides/b.svs''],
      target_dir = ''patches'', file_format = ''png'', filename = None, patch = None,
      patch_gen = PatchGenerator_init [Path ''slides/a.svs'', Path ''slides/b.svs''] True False\<rparr>"

section \<open>Proofs: clinical\_compare.py\<close>

subsection \<open>Substrings\<close>

lemma startswith_iff: "startswith t s \<longleftrightarrow> (\<exists>q. t = s @ q)"
  by (induction t s rule: startswith.induct) auto

lemma str_in_iff: "str_in s t \<longleftrightarrow> (\<exists>p q. t = p @ s @ q)"
proof (induction t)
  case Nil
  then show ?case by simp
next
  case (Cons d t)
  show ?case
  proof
    assume "str_in s (d # t)"
    then consider "startswith (d # t) s" | "str_in s t" by auto
    then show "\<exists>p q. d # t = p @ s @ q"
    proof cases
      case 1
      then obtain q where "d # t = s @ q" by (auto simp: startswith_iff)
      then have "d # t = [] @ s @ q" by simp
      then show ?thesis by blast
    next
      case 2
      then obtain p q where "t = p @ s @ q" using Cons.IH by blast
      then have "d # t = (d # p) @ s @ q" by simp
      then show ?thesis by blast
    qed
  next
    assume "\<exists>p q. d # t = p @ s @ q"
    then obtain p q where pq: "d # t = p @ s @ q" by blast
    show "str_in s (d # t)"
    proof (cases p)
      case Nil
      with pq have "startswith (d # t) s" by (auto simp: startswith_iff)
      then show ?thesis by simp
    next
      case (Cons x p')
      with pq have "t = p' @ s @ q" by simp
      then have "str_in s t" using Cons.IH by blast
      then show ?thesis by simp
    qed
  qed
qed

lemma str_in_empty: "str_in [] t"
  by (cases t) simp_all

lemma contained_commute: "contained a b = contained b a"
  by (auto simp: contained_def Let_def)

lemma contained_empty: "contained a []" "contained [] a"
  by (simp_all add: contained_def lower_def str_in_empty)

subsection \<open>The numeric test\<close>

lemma py_float_raises: "py_float s = Inl e \<Longrightarrow> e = ValueError"
  by (auto simp: py_float_def Let_def split: if_splits option.splits prod.splits)

lemma float_abs_of_ratio:
  "float_abs (float_of_ratio True k d) = float_abs (float_of_ratio False k d)"
  by (simp add: float_of_ratio_def split: option.splits)

lemma float_abs_of_dyadic:
  "float_abs (float_of_dyadic (- m) e) = float_abs (float_of_dyadic m e)"
  by (cases "m < 0"; cases "0 < m"; simp add: float_of_dyadic_def float_abs_of_ratio)

lemma float_abs_sub_commute: "float_abs (float_sub x y) = float_abs (float_sub y x)"
proof (cases x; cases y)
  fix m1 e1 m2 e2
  assume xy: "x = Finite m1 e1" "y = Finite m2 e2"
  have "float_abs (float_of_dyadic (- (m1 * 2 ^ nat (e1 - min e1 e2) - m2 * 2 ^ nat (e2 - min e1 e2))) (min e1 e2))
        = float_abs (float_of_dyadic (m1 * 2 ^ nat (e1 - min e1 e2) - m2 * 2 ^ nat (e2 - min e1 e2)) (min e1 e2))"
    by (rule float_abs_of_dyadic)
  then show ?thesis using xy by (simp add: Let_def min.commute)
qed simp_all

lemma numeric_close_commute: "numeric_close a b = numeric_close b a"
  by (auto simp: numeric_close_def float_abs_sub_commute[of _ _] split: sum.splits
      dest: py_float_raises)

lemma numeric_close_raises: "numeric_close a b = Inl e \<Longrightarrow> e = ValueError"
  by (auto simp: numeric_close_def split: sum.splits dest: py_float_raises)

text \<open>The function never raises: only ValueError leaves the conversions, and it is caught.\<close>

lemma values_are_equivalent_alt:
  "values_are_equivalent a b =
     Inr (a = b \<or> lower a = lower b \<or> numeric_close a b = Inr True \<or> contained a b)"
proof (cases "numeric_close a b")
  case (Inl e)
  then have "e = ValueError" by (rule numeric_close_raises)
  with Inl show ?thesis by (simp add: values_are_equivalent_def)
next
  case (Inr c)
  then show ?thesis by (cases c) (simp_all add: values_are_equivalent_def)
qed

text \<open>Equations that evaluate the conversions and the comparison on literals.\<close>

lemmas float_eval = py_float_def code_point_def is_space_def is_digit_def digits_val_def
  strip_def split_sign_def parse_exponent_def parse_decimal_def lower_def lower_char_def
  float_of_decimal_def float_of_ratio_def float_of_dyadic_def round_binary64_def
  ilog2_ratio_def ratio_ge_pow2_def Let_def char_of_def bit_Suc_0_iff

lemmas equivalent_eval = values_are_equivalent_def numeric_close_def contained_def float_eval

text \<open>
  Claim C1 says that \<open>values_are_equivalent("Male", "Female")\<close> returns False. It does
  not: the lowercased \<open>male\<close> is a substring of \<open>female\<close>, so the containment test
  makes the call return True.
\<close>

theorem male_female_counterexample:
  "values_are_equivalent ''Male'' ''Female'' \<noteq> Inr False"
  by (simp add: equivalent_eval)

text \<open>
  Claim C1, amended: \<open>values_are_equivalent("Male", "Female")\<close> returns True, because
  the lowercased first value is contained in the lowercased second value.
\<close>

theorem male_female_equivalent:
  "str_in (lower ''Male'') (lower ''Female'') \<and>
   values_are_equivalent ''Male'' ''Female'' = Inr True"
  by (simp add: equivalent_eval)

text \<open>
  Claim C2: for all strings \<open>a\<close> and \<open>b\<close>, \<open>values_are_equivalent(a, a)\<close> returns
  True, and \<open>values_are_equivalent(a, b)\<close> returns what
  \<open>values_are_equivalent(b, a)\<close> returns.
\<close>

theorem values_are_equivalent_refl_sym:
  "values_are_equivalent a a = Inr True \<and>
   values_are_equivalent a b = values_are_equivalent b a"
proof
  show "values_are_equivalent a a = Inr True"
    by (simp add: values_are_equivalent_def)
  have 1: "numeric_close b a = numeric_close a b" by (rule numeric_close_commute)
  have 2: "contained b a = contained a b" by (rule contained_commute)
  show "values_are_equivalent a b = values_are_equivalent b a"
    unfolding values_are_equivalent_alt 1 2 by auto
qed

lemma tolerance_value: "float_of_decimal False 1 (- 6) = Finite 4722366482869645 (- 72)"
  by (simp add: float_eval)

lemma close_only_finite:
  assumes "float_lt (float_abs (float_sub x y)) (float_of_decimal False 1 (- 6))"
  shows "\<exists>m1 e1 m2 e2. x = Finite m1 e1 \<and> y = Finite m2 e2"
  using assms unfolding tolerance_value by (cases x; cases y) simp_all

text \<open>
  Claim C3 says that two strings that both convert to numbers whose values are equal
  within \<open>1e-6\<close> are equivalent. It fails for equal infinities: \<open>"+inf"\<close> and
  \<open>"Infinity"\<close> both convert to the same float, but \<open>inf - inf\<close> is a NaN, the test
  \<open>abs(num1 - num2) < 1e-6\<close> is false, neither string contains the other, and the call
  returns False.
\<close>

theorem equal_infinities_counterexample:
  "py_float ''+inf'' = Inr PosInf \<and> py_float ''Infinity'' = Inr PosInf \<and>
   values_are_equivalent ''+inf'' ''Infinity'' = Inr False"
  by (simp add: equivalent_eval)

text \<open>
  Claim C3, amended: when both strings convert to floats and the absolute value of their
  difference, as binary64 arithmetic computes it, is below \<open>1e-6\<close>, the call returns
  True; both floats are then finite. In particular the pair \<open>"23486.0"\<close>, \<open>"23486"\<close>
  is equivalent.
\<close>

theorem finite_close_values_equivalent:
  assumes "py_float a = Inr x" and "py_float b = Inr y"
    and "float_lt (float_abs (float_sub x y)) (float_of_decimal False 1 (- 6))"
  shows "values_are_equivalent a b = Inr True \<and>
         (\<exists>m1 e1 m2 e2. x = Finite m1 e1 \<and> y = Finite m2 e2)"
proof -
  have "numeric_close a b = Inr True"
    using assms by (simp add: numeric_close_def)
  then show ?thesis
    using close_only_finite[OF assms(3)] by (simp add: values_are_equivalent_alt)
qed

theorem finite_close_values_equivalent_witness:
  "py_float ''23486.0'' = Inr (Finite 6455782522486784 (- 38)) \<and>
   py_float ''23486'' = Inr (Finite 6455782522486784 (- 38)) \<and>
   float_lt (float_abs (float_sub (Finite 6455782522486784 (- 38))
                                  (Finite 6455782522486784 (- 38))))
            (float_of_decimal False 1 (- 6)) \<and>
   values_are_equivalent ''23486.0'' ''23486'' = Inr True"
proof -
  have 1: "py_float ''23486.0'' = Inr (Finite 6455782522486784 (- 38))"
    by (simp add: float_eval)
  have 2: "py_float ''23486'' = Inr (Finite 6455782522486784 (- 38))"
    by (simp add: float_eval)
  have 3: "float_lt (float_abs (float_sub (Finite 6455782522486784 (- 38))
                                          (Finite 6455782522486784 (- 38))))
             (float_of_decimal False 1 (- 6))"
    by (simp add: float_eval)
  show ?thesis using 1 2 3 finite_close_values_equivalent[OF 1 2 3] by simp
qed

text \<open>
  The difference of the test is the rounded one. The floats of \<open>"1e-6"\<close> and
  \<open>"1e-23"\<close> differ by less than \<open>1e-6\<close> as real numbers, but their binary64
  difference rounds to the float of \<open>1e-6\<close> itself, which is not below \<open>1e-6\<close>.
\<close>

lemma rounded_difference_example:
  "py_float ''1e-6'' = Inr (Finite 4722366482869645 (- 72)) \<and>
   py_float ''1e-23'' = Inr (Finite 6805647338418769 (- 129)) \<and>
   float_sub (Finite 4722366482869645 (- 72)) (Finite 6805647338418769 (- 129))
     = Finite 4722366482869645 (- 72) \<and>
   values_are_equivalent ''1e-6'' ''1e-23'' = Inr False"
  by (simp add: equivalent_eval)

text \<open>
  Claim C4: when the lowercased form of one string is a substring of the lowercased form
  of the other (equal lowercased forms included), the call returns True. The witness is
  the pair \<open>"TCGA-STAD"\<close>, \<open>"STAD"\<close>.
\<close>

theorem substring_values_equivalent:
  assumes "(\<exists>p q. lower b = p @ lower a @ q) \<or> (\<exists>p q. lower a = p @ lower b @ q)"
  shows "values_are_equivalent a b = Inr True"
proof -
  have "contained a b"
    using assms by (simp add: contained_def str_in_iff)
  then show ?thesis by (simp add: values_are_equivalent_alt)
qed

theorem substring_values_equivalent_witness:
  "lower ''TCGA-STAD'' = ''tcga-'' @ lower ''STAD'' @ [] \<and>
   values_are_equivalent ''TCGA-STAD'' ''STAD'' = Inr True"
proof -
  have 1: "lower ''TCGA-STAD'' = ''tcga-'' @ lower ''STAD'' @ []"
    by (simp add: float_eval)
  then have "(\<exists>p q. lower ''STAD'' = p @ lower ''TCGA-STAD'' @ q) \<or>
             (\<exists>p q. lower ''TCGA-STAD'' = p @ lower ''STAD'' @ q)"
    by blast
  from substring_values_equivalent[OF this] 1 show ?thesis by simp
qed

text \<open>
  Claim C5: when at least one of the two strings does not convert to a float, no
  exception reaches the caller: the call returns a Boolean, the one the string
  comparisons alone give (equality, equality of the lowercased forms, containment of a
  lowercased form in the other).
\<close>

theorem unparsable_values_fall_back:
  assumes "(\<exists>e. py_float a = Inl e) \<or> (\<exists>e. py_float b = Inl e)"
  shows "values_are_equivalent a b =
           Inr (a = b \<or> lower a = lower b \<or>
                str_in (lower a) (lower b) \<or> str_in (lower b) (lower a))"
proof -
  have "\<exists>e. numeric_close a b = Inl e"
    using assms by (auto simp: numeric_close_def split: sum.splits)
  then have "numeric_close a b \<noteq> Inr True" by auto
  then show ?thesis by (simp add: values_are_equivalent_alt contained_def Let_def)
qed

theorem unparsable_values_fall_back_witness:
  "py_float ''N/A'' = Inl ValueError \<and>
   values_are_equivalent ''N/A'' ''12'' = Inr False \<and>
   values_are_equivalent ''n/a'' ''N/A'' = Inr True"
proof -
  have 1: "py_float ''N/A'' = Inl ValueError"
    by (simp add: float_eval)
  then have 2: "(\<exists>e. py_float ''N/A'' = Inl e) \<or> (\<exists>e. py_float ''12'' = Inl e)"
    and 3: "(\<exists>e. py_float ''n/a'' = Inl e) \<or> (\<exists>e. py_float ''N/A'' = Inl e)"
    by blast+
  show ?thesis
    using 1 unparsable_values_fall_back[OF 2] unparsable_values_fall_back[OF 3]
    by (simp add: float_eval)
qed

lemma row_differences_not_blank:
  "row_differences row1 row2 cols = Inr ds \<Longrightarrow> d \<in> set ds \<Longrightarrow>
     table1_value d \<noteq> [] \<and> table2_value d \<noteq> []"
proof (induction cols arbitrary: ds)
  case Nil
  then show ?case by simp
next
  case (Cons col cols)
  obtain rest where rest: "row_differences row1 row2 cols = Inr rest"
    using Cons.prems(1) by (auto simp: Let_def split: sum.splits)
  show ?case
  proof (cases "d \<in> set rest")
    case True
    then show ?thesis using Cons.IH[OF rest] by simp
  next
    case False
    then have "values_are_equivalent (cell row1 col) (cell row2 col) = Inr False"
      and "d = \<lparr>column = col, table1_value = cell row1 col, table2_value = cell row2 col\<rparr>"
      using Cons.prems rest
      by (auto simp: Let_def values_are_equivalent_alt split: if_splits)
    then show ?thesis
      using contained_empty[of "cell row1 col"] contained_empty[of "cell row2 col"]
      by (auto simp: values_are_equivalent_alt)
  qed
qed

text \<open>
  Claim C9: for every string \<open>a\<close>, \<open>values_are_equivalent(a, "")\<close> and
  \<open>values_are_equivalent("", a)\<close> return True; hence no difference that the column
  loop reports has a blank value on either side.
\<close>

theorem blank_values_equivalent:
  "values_are_equivalent a [] = Inr True \<and> values_are_equivalent [] a = Inr True \<and>
   (\<forall>ds d. row_differences row1 row2 cols = Inr ds \<and> d \<in> set ds
      \<longrightarrow> table1_value d \<noteq> [] \<and> table2_value d \<noteq> [])"
  using row_differences_not_blank[of row1 row2 cols]
  by (simp add: values_are_equivalent_alt contained_empty)

theorem blank_values_equivalent_witness:
  "values_are_equivalent ''Male'' [] = Inr True \<and>
   row_differences [''gender'' \<mapsto> ''Male'', ''race'' \<mapsto> ''white''] [''race'' \<mapsto> ''asian'']
     [''gender'', ''race'']
   = Inr [\<lparr>column = ''race'', table1_value = ''white'', table2_value = ''asian''\<rparr>]"
  using blank_values_equivalent[of "''Male''" "[''gender'' \<mapsto> ''Male'', ''race'' \<mapsto> ''white'']"
      "[''race'' \<mapsto> ''asian'']" "[''gender'', ''race'']"]
  by (simp add: cell_def equivalent_eval)


section \<open>Proofs: PatchGenerator\<close>

lemma next_patch_frame:
  "next_patch w self = (self', r) \<Longrightarrow>
     i self' \<le> n self \<and> (\<exists>c. self' = self\<lparr>i := c\<rparr>) \<and>
     (r = Inl StopIteration \<longrightarrow> i self' = 0)"
proof (induction w self arbitrary: self' r rule: next_patch.induct)
  case (1 w self)
  show ?case
  proof (cases "i self < n self")
    case False
    then have "self' = reset self" using "1.prems" by (simp add: next_patch.simps[of w self])
    then show ?thesis by (auto simp: reset_def)
  next
    case True
    note lt = True
    show ?thesis
    proof (cases "fetch w self")
      case (Inr res)
      show ?thesis
      proof (cases "invalid_patch w res")
        case True
        then have "next_patch w (self\<lparr>i := i self + 1\<rparr>) = (self', r)"
          using "1.prems" lt Inr by (simp add: next_patch.simps[of w self] Let_def)
        from "1.IH"(3)[OF lt Inr refl True this] show ?thesis by auto
      next
        case False
        then have "self' = self\<lparr>i := i self + 1\<rparr>" "r = Inr res"
          using "1.prems" lt Inr by (simp_all add: next_patch.simps[of w self] Let_def)
        then show ?thesis using lt by auto
      qed
    next
      case (Inl e)
      show ?thesis
      proof (cases "e = IndexError")
        case True
        then have "next_patch w (self\<lparr>i := i self + 1\<rparr>) = (self', r)"
          using "1.prems" lt Inl by (simp add: next_patch.simps[of w self])
        from "1.IH"(1)[OF lt Inl True this] show ?thesis by auto
      next
        case False
        note ne = False
        show ?thesis
        proof (cases "is_Exception e")
          case True
          then have "next_patch w (self\<lparr>i := i self + 1\<rparr>) = (self', r)"
            using "1.prems" lt Inl ne by (simp add: next_patch.simps[of w self])
          from "1.IH"(2)[OF lt Inl ne True this] show ?thesis by auto
        next
          case False
          then have "self' = self" "r = Inl e" "e = KeyboardInterrupt"
            using "1.prems" lt Inl ne
            by (simp_all add: next_patch.simps[of w self] is_Exception_def)
          then show ?thesis using lt by (auto intro: exI[of _ "i self"])
        qed
      qed
    qed
  qed
qed

text \<open>One turn of the loop, by the case the slide under the cursor falls in.\<close>

lemma next_patch_end:
  "\<not> i self < n self \<Longrightarrow> next_patch w self = (reset self, Inl StopIteration)"
  by (simp add: next_patch.simps[of w self])

lemma next_patch_skip:
  "i self < n self \<Longrightarrow> skipped w self \<Longrightarrow>
     next_patch w self = next_patch w (self\<lparr>i := i self + 1\<rparr>)"
  by (auto simp: next_patch.simps[of w self] skipped_def Let_def split: sum.splits)

lemma next_patch_return:
  "i self < n self \<Longrightarrow> fetch w self = Inr r \<Longrightarrow> \<not> invalid_patch w r \<Longrightarrow>
     next_patch w self = (self\<lparr>i := i self + 1\<rparr>, Inr r)"
  by (simp add: next_patch.simps[of w self] Let_def)

lemma next_patch_interrupt:
  "i self < n self \<Longrightarrow> fetch w self = Inl e \<Longrightarrow> \<not> is_Exception e \<Longrightarrow>
     next_patch w self = (self, Inl e)"
  by (auto simp: next_patch.simps[of w self] is_Exception_def)

lemma fetch_cases:
  "skipped w self \<or> (\<exists>r. fetch w self = Inr r \<and> \<not> invalid_patch w r) \<or>
   (\<exists>e. fetch w self = Inl e \<and> \<not> is_Exception e)"
  by (cases "fetch w self") (auto simp: skipped_def)

text \<open>StopIteration leaves the call only when every slide from the cursor on was passed over.\<close>

lemma next_patch_stop:
  "snd (next_patch w self) = Inl StopIteration \<Longrightarrow> i self \<le> j \<Longrightarrow> j < n self \<Longrightarrow>
     skipped w (self\<lparr>i := j\<rparr>)"
proof (induction "n self - i self" arbitrary: self)
  case 0
  then show ?case by simp
next
  case (Suc d)
  then have lt: "i self < n self" by simp
  consider (skip) "skipped w self"
    | (ret) r where "fetch w self = Inr r" "\<not> invalid_patch w r"
    | (intr) e where "fetch w self = Inl e" "\<not> is_Exception e"
    using fetch_cases[of w self] by blast
  then show ?case
  proof cases
    case skip
    show ?thesis
    proof (cases "j = i self")
      case True
      then show ?thesis using skip by simp
    next
      case False
      let ?self = "self\<lparr>i := i self + 1\<rparr>"
      have "d = n ?self - i ?self" using Suc.hyps(2) by simp
      moreover have "snd (next_patch w ?self) = Inl StopIteration"
        using Suc.prems(1) next_patch_skip[OF lt skip] by simp
      moreover have "i ?self \<le> j" "j < n ?self" using False Suc.prems by simp_all
      ultimately have "skipped w (?self\<lparr>i := j\<rparr>)" by (rule Suc.hyps(1))
      then show ?thesis by simp
    qed
  next
    case ret
    then show ?thesis using Suc.prems(1) next_patch_return[OF lt ret] by simp
  next
    case intr
    then show ?thesis
      using Suc.prems(1) next_patch_interrupt[OF lt intr] by (auto simp: is_Exception_def)
  qed
qed

text \<open>Slides passed over do not end the call: it goes on from the first slide that is not.\<close>

lemma next_patch_skips:
  "i self \<le> j \<Longrightarrow> j \<le> n self \<Longrightarrow>
   (\<forall>c. i self \<le> c \<and> c < j \<longrightarrow> skipped w (self\<lparr>i := c\<rparr>)) \<Longrightarrow>
     next_patch w self = next_patch w (self\<lparr>i := j\<rparr>)"
proof (induction "j - i self" arbitrary: self)
  case 0
  then have "self\<lparr>i := j\<rparr> = self" by simp
  then show ?case by simp
next
  case (Suc d)
  let ?self = "self\<lparr>i := i self + 1\<rparr>"
  have lt: "i self < n self" using Suc.hyps(2) Suc.prems(2) by simp
  have "i self \<le> i self \<and> i self < j" using Suc.hyps(2) by simp
  then have "skipped w (self\<lparr>i := i self\<rparr>)" using Suc.prems(3) by blast
  then have skip: "skipped w self" by simp
  have "d = j - i ?self" using Suc.hyps(2) by simp
  moreover have "i ?self \<le> j" "j \<le> n ?self" using Suc.hyps(2) Suc.prems(2) by simp_all
  moreover have "\<forall>c. i ?self \<le> c \<and> c < j \<longrightarrow> skipped w (?self\<lparr>i := c\<rparr>)"
    using Suc.prems(3) by simp
  ultimately have "next_patch w ?self = next_patch w (?self\<lparr>i := j\<rparr>)"
    by (rule Suc.hyps(1))
  then show ?case using next_patch_skip[OF lt skip] by simp
qed

lemma next_patch_raises:
  "snd (next_patch w self) = Inl e \<Longrightarrow> e = StopIteration \<or> e = KeyboardInterrupt"
proof (induction "n self - i self" arbitrary: self)
  case 0
  then show ?case using next_patch_end[of self w] by simp
next
  case (Suc d)
  then have lt: "i self < n self" by simp
  consider (skip) "skipped w self"
    | (ret) r where "fetch w self = Inr r" "\<not> invalid_patch w r"
    | (intr) e' where "fetch w self = Inl e'" "\<not> is_Exception e'"
    using fetch_cases[of w self] by blast
  then show ?case
  proof cases
    case skip
    let ?self = "self\<lparr>i := i self + 1\<rparr>"
    have "d = n ?self - i ?self" using Suc.hyps(2) by simp
    moreover have "snd (next_patch w ?self) = Inl e"
      using Suc.prems next_patch_skip[OF lt skip] by simp
    ultimately show ?thesis by (rule Suc.hyps(1))
  next
    case ret
    then show ?thesis using Suc.prems next_patch_return[OF lt ret] by simp
  next
    case intr
    then show ?thesis
      using Suc.prems next_patch_interrupt[OF lt intr] by (auto simp: is_Exception_def)
  qed
qed

lemma next_calls_frame:
  "i self \<le> n self \<Longrightarrow>
     i (next_calls ws self) \<le> n self \<and> (\<exists>c. next_calls ws self = self\<lparr>i := c\<rparr>)"
proof (induction ws arbitrary: self)
  case Nil
  then show ?case by (auto intro: exI[of _ "i self"])
next
  case (Cons w ws)
  obtain self' r where nx: "next_patch w self = (self', r)" by (cases "next_patch w self")
  from next_patch_frame[OF nx] obtain c where c: "i self' \<le> n self" "self' = self\<lparr>i := c\<rparr>"
    by blast
  then have "i self' \<le> n self'" by simp
  from Cons.IH[OF this] c show ?case using nx by auto
qed

text \<open>Equations that evaluate the generator on a literal world.\<close>

lemmas generator_eval = next_patch.simps PatchGenerator_init_def reset_def fetch_def slide_at_def
  get_random_tissue_patch_def get_random_patch_def unpack_slide_def invalid_patch_def skipped_def
  is_Exception_def basename_def rfind_def failing_world_def mixed_world_def two_slides_def

text \<open>
  Claim C7: when getting the patch of the slide under the cursor raises an error (an
  \<open>Exception\<close>), \<open>__next__\<close> catches it, moves the cursor past that slide and goes on
  as a call at the next slide would. It returns the result of the first slide that is
  not passed over. The only exceptions that leave the call are StopIteration and
  KeyboardInterrupt, and StopIteration leaves it only after every slide from the cursor
  to the end of the list was tried and passed over.
\<close>

theorem next_patch_continues_after_error:
  "(i self < n self \<and> fetch w self = Inl e \<and> is_Exception e \<longrightarrow>
      next_patch w self = next_patch w (self\<lparr>i := i self + 1\<rparr>)) \<and>
   (i self \<le> j \<and> j < n self \<and> (\<forall>c. i self \<le> c \<and> c < j \<longrightarrow> skipped w (self\<lparr>i := c\<rparr>)) \<and>
    fetch w (self\<lparr>i := j\<rparr>) = Inr r \<and> \<not> invalid_patch w r \<longrightarrow>
      next_patch w self = (self\<lparr>i := j + 1\<rparr>, Inr r)) \<and>
   (\<forall>e'. snd (next_patch w self) = Inl e' \<longrightarrow> e' = StopIteration \<or> e' = KeyboardInterrupt) \<and>
   (snd (next_patch w self) = Inl StopIteration \<longrightarrow>
      (\<forall>c. i self \<le> c \<and> c < n self \<longrightarrow> skipped w (self\<lparr>i := c\<rparr>)))"
proof (intro conjI impI allI)
  assume "i self < n self \<and> fetch w self = Inl e \<and> is_Exception e"
  then show "next_patch w self = next_patch w (self\<lparr>i := i self + 1\<rparr>)"
    by (intro next_patch_skip) (simp_all add: skipped_def)
next
  assume a: "i self \<le> j \<and> j < n self \<and>
    (\<forall>c. i self \<le> c \<and> c < j \<longrightarrow> skipped w (self\<lparr>i := c\<rparr>)) \<and>
    fetch w (self\<lparr>i := j\<rparr>) = Inr r \<and> \<not> invalid_patch w r"
  then have "next_patch w self = next_patch w (self\<lparr>i := j\<rparr>)"
    by (intro next_patch_skips) simp_all
  also have "\<dots> = (self\<lparr>i := j\<rparr>\<lparr>i := i (self\<lparr>i := j\<rparr>) + 1\<rparr>, Inr r)"
    using a by (intro next_patch_return) simp_all
  finally show "next_patch w self = (self\<lparr>i := j + 1\<rparr>, Inr r)" by simp
next
  fix e' assume "snd (next_patch w self) = Inl e'"
  then show "e' = StopIteration \<or> e' = KeyboardInterrupt" by (rule next_patch_raises)
next
  fix c assume "snd (next_patch w self) = Inl StopIteration" "i self \<le> c \<and> c < n self"
  then show "skipped w (self\<lparr>i := c\<rparr>)" by (intro next_patch_stop) simp_all
qed

theorem next_patch_continues_after_error_witness:
  "i two_slides < n two_slides \<and> fetch mixed_world two_slides = Inl OSError \<and>
   is_Exception OSError \<and>
   next_patch mixed_world two_slides = (two_slides\<lparr>i := 2\<rparr>, Inr (Patch 7 ''b.svs'')) \<and>
   snd (next_patch failing_world two_slides) = Inl StopIteration \<and>
   skipped failing_world (two_slides\<lparr>i := 1\<rparr>)"
proof -
  have 1: "i two_slides < n two_slides \<and> fetch mixed_world two_slides = Inl OSError \<and>
           is_Exception OSError"
    by (simp add: generator_eval)
  have 2: "next_patch mixed_world (two_slides\<lparr>i := i two_slides + 1\<rparr>)
           = (two_slides\<lparr>i := 2\<rparr>, Inr (Patch 7 ''b.svs''))"
    by (simp add: generator_eval)
  have 3: "snd (next_patch failing_world two_slides) = Inl StopIteration"
    by (simp add: generator_eval)
  have 4: "i two_slides \<le> 1 \<and> 1 < n two_slides"
    by (simp add: generator_eval)
  show ?thesis
    using 1 2 3 4
      next_patch_continues_after_error[of two_slides mixed_world OSError]
      next_patch_continues_after_error[of two_slides failing_world]
    by simp
qed

text \<open>
  Claim C10: the cursor is 0 after \<open>__init__\<close>, and it is at most \<open>n\<close> after
  \<open>__init__\<close> and after every call of \<open>__next__\<close>. A call that raises StopIteration
  leaves the generator with the cursor at 0; a generator made by \<open>__init__\<close> is then as
  \<open>__init__\<close> made it, ready to be iterated over again from the first slide.
\<close>

theorem cursor_in_range:
  "i (PatchGenerator_init files tissue annotation) = 0 \<and>
   n (PatchGenerator_init files tissue annotation) = length files \<and>
   i (next_calls ws (PatchGenerator_init files tissue annotation)) \<le> length files \<and>
   i (fst (next_patch w self)) \<le> n (fst (next_patch w self)) \<and>
   (snd (next_patch w self) = Inl StopIteration \<longrightarrow> fst (next_patch w self) = self\<lparr>i := 0\<rparr>) \<and>
   (snd (next_patch w (next_calls ws (PatchGenerator_init files tissue annotation)))
      = Inl StopIteration \<longrightarrow>
    fst (next_patch w (next_calls ws (PatchGenerator_init files tissue annotation)))
      = PatchGenerator_init files tissue annotation)"
proof -
  let ?g = "PatchGenerator_init files tissue annotation"
  have g0: "i ?g = 0" "n ?g = length files"
    by (simp_all add: PatchGenerator_init_def reset_def)
  then have "i ?g \<le> n ?g" by simp
  from next_calls_frame[OF this, of ws] obtain c
    where calls: "i (next_calls ws ?g) \<le> n ?g" "next_calls ws ?g = ?g\<lparr>i := c\<rparr>"
    by blast
  have frame: "i (fst (next_patch w s)) \<le> n s \<and> (\<exists>c. fst (next_patch w s) = s\<lparr>i := c\<rparr>) \<and>
               (snd (next_patch w s) = Inl StopIteration \<longrightarrow> i (fst (next_patch w s)) = 0)"
    for s :: patch_generator
    using next_patch_frame[of w s "fst (next_patch w s)" "snd (next_patch w s)"] by simp
  have stop: "fst (next_patch w s) = s\<lparr>i := 0\<rparr>" if "snd (next_patch w s) = Inl StopIteration"
    for s :: patch_generator
  proof -
    from frame[of s] that obtain c where "fst (next_patch w s) = s\<lparr>i := c\<rparr>"
      "i (fst (next_patch w s)) = 0" by blast
    then show ?thesis by simp
  qed
  have "i (fst (next_patch w self)) \<le> n (fst (next_patch w self))"
    using frame[of self] by auto
  moreover have "fst (next_patch w (next_calls ws ?g)) = ?g"
    if "snd (next_patch w (next_calls ws ?g)) = Inl StopIteration"
  proof -
    have "fst (next_patch w (next_calls ws ?g)) = (next_calls ws ?g)\<lparr>i := 0\<rparr>"
      using that by (rule stop)
    also have "\<dots> = ?g\<lparr>i := 0\<rparr>" using calls(2) by simp
    also have "\<dots> = ?g" using g0(1) by simp
    finally show ?thesis .
  qed
  ultimately show ?thesis using g0 calls(1) stop[of self] by simp
qed

theorem cursor_in_range_witness:
  "i (next_calls [mixed_world] two_slides) = 2 \<and>
   snd (next_patch mixed_world (next_calls [mixed_world] two_slides)) = Inl StopIteration \<and>
   fst (next_patch mixed_world (next_calls [mixed_world] two_slides)) = two_slides \<and>
   i two_slides = 0"
proof -
  have 1: "next_calls [mixed_world] two_slides = two_slides\<lparr>i := 2\<rparr>"
    by (simp add: generator_eval)
  have 2: "snd (next_patch mixed_world (two_slides\<lparr>i := 2\<rparr>)) = Inl StopIteration"
    by (simp add: generator_eval)
  show ?thesis
    using 1 2
      cursor_in_range[of "[Path ''a.svs'', Path ''b.svs'']" True False "[mixed_world]" mixed_world
        "two_slides\<lparr>i := 2\<rparr>"]
    by (simp add: two_slides_def)
qed


section \<open>Proofs: OfflinePatcher\<close>

subsection \<open>Paths\<close>

lemma rfind_append: "c \<notin> set b \<Longrightarrow> rfind (a @ c # b) c = int (length a)"
proof -
  assume nb: "c \<notin> set b"
  have "takeWhile (\<lambda>x. x \<noteq> c) (rev b @ c # rev a) = rev b"
    using nb by (auto simp: takeWhile_tail)
  then show ?thesis by (simp add: rfind_def)
qed

lemma rfind_absent: "c \<notin> set p \<Longrightarrow> rfind p c = - 1"
  by (simp add: rfind_def)

lemma rfind_last:
  "c \<in> set p \<Longrightarrow> \<exists>a b. p = a @ c # b \<and> c \<notin> set b \<and> rfind p c = int (length a)"
proof -
  assume "c \<in> set p"
  then obtain a b where "p = a @ c # b" "c \<notin> set b" by (auto dest: split_list_last)
  then show ?thesis using rfind_append[of c b a] by blast
qed

lemma basename_no_slash: "CHR ''/'' \<notin> set (basename p)"
proof (cases "CHR ''/'' \<in> set p")
  case True
  then obtain a b where "p = a @ CHR ''/'' # b" "CHR ''/'' \<notin> set b"
    "rfind p (CHR ''/'') = int (length a)" using rfind_last by blast
  then show ?thesis by (simp add: basename_def nat_add_distrib)
next
  case False
  then show ?thesis by (simp add: basename_def rfind_absent)
qed

lemma basename_after_slash: "CHR ''/'' \<notin> set b \<Longrightarrow> basename (a @ CHR ''/'' # b) = b"
  by (simp add: basename_def rfind_append nat_add_distrib)

lemma basename_plain: "CHR ''/'' \<notin> set p \<Longrightarrow> basename p = p"
  by (simp add: basename_def rfind_absent)

lemma basename_join:
  assumes "CHR ''/'' \<notin> set b"
  shows "basename (join a b) = b"
proof -
  have ns: "\<not> startswith b ''/''" using assms by (cases b) auto
  show ?thesis
  proof (cases "a = [] \<or> last a = CHR ''/''")
    case False
    then show ?thesis using ns assms basename_after_slash[of b a] by (simp add: join_def)
  next
    case True
    show ?thesis
    proof (cases "a = []")
      case True
      then show ?thesis using ns assms by (simp add: join_def basename_plain)
    next
      case False
      with True obtain a' where a': "a = a' @ [CHR ''/'']"
        by (metis append_butlast_last_id)
      have "join a b = a @ b" using True ns by (simp add: join_def)
      also have "\<dots> = a' @ CHR ''/'' # b" using a' by simp
      finally show ?thesis using assms basename_after_slash[of b a'] by simp
    qed
  qed
qed

lemma rfind_ge: "- 1 \<le> rfind p c"
  using rfind_last[of c p] rfind_absent[of c p] by (cases "c \<in> set p") auto

lemma splitext_cases:
  "splitext p = (p, []) \<or>
   (\<exists>a b. p = a @ CHR ''.'' # b \<and> CHR ''.'' \<notin> set b \<and> splitext p = (a, CHR ''.'' # b))"
proof (cases "CHR ''.'' \<in> set p")
  case False
  then have "rfind p (CHR ''.'') = - 1" by (rule rfind_absent)
  then have "\<not> rfind p (CHR ''/'') < rfind p (CHR ''.'')" using rfind_ge[of p "CHR ''/''"] by simp
  then show ?thesis by (simp add: splitext_def)
next
  case True
  then obtain a b where ab: "p = a @ CHR ''.'' # b" "CHR ''.'' \<notin> set b"
    "rfind p (CHR ''.'') = int (length a)" using rfind_last by blast
  then have "take (nat (rfind p (CHR ''.''))) p = a" "drop (nat (rfind p (CHR ''.''))) p = CHR ''.'' # b"
    by simp_all
  then have "splitext p = (p, []) \<or> splitext p = (a, CHR ''.'' # b)"
    by (simp add: splitext_def Let_def)
  then show ?thesis using ab by blast
qed

lemma splitext_shape:
  "p = fst (splitext p) @ snd (splitext p) \<and> is_extension (snd (splitext p))"
  using splitext_cases[of p] by (auto simp: is_extension_def)

lemma splitext_root_subset: "set (fst (splitext p)) \<subseteq> set p"
  using splitext_shape[of p] by (metis Un_upper1 set_append)

lemma is_hex_not_slash: "is_hex c \<Longrightarrow> c \<noteq> CHR ''/''"
  by (auto simp: is_hex_def is_digit_def code_point_def)

lemma OfflinePatcher_init_fields:
  "OfflinePatcher_init makedirs_error env files dir tissue = Inr (self0, env') \<Longrightarrow>
     target_dir self0 = dir \<and> file_format self0 = ''png'' \<and> filename self0 = None \<and>
     patcher_slide_files self0 = files \<and>
     patch_gen self0 = PatchGenerator_init files tissue False \<and>
     dirs env' = insert dir (dirs env) \<and> (dir \<in> dirs env \<longrightarrow> env' = env) \<and>
     written env' = written env \<and> stdout env' = stdout env"
  by (auto simp: OfflinePatcher_init_def Let_def split: if_splits option.splits)

lemma compose_path_shape:
  assumes "filename self = Some f" and "file_format self = ''png''"
    and "length (uuid4_hex w k) = 32" and "list_all is_hex (uuid4_hex w k)"
  shows "\<exists>stem ext2 ext1 uid.
           compose_path w k self = Inr (join (target_dir self) (stem @ ''_'' @ uid @ ''.png'')) \<and>
           f = stem @ ext2 @ ext1 \<and> is_extension ext2 \<and> is_extension ext1 \<and>
           splitext f = (stem @ ext2, ext1) \<and> splitext (stem @ ext2) = (stem, ext2) \<and>
           uid = take 5 (uuid4_hex w k) \<and> length uid = 5 \<and> list_all is_hex uid \<and>
           (CHR ''/'' \<notin> set f \<longrightarrow>
              basename (join (target_dir self) (stem @ ''_'' @ uid @ ''.png''))
              = stem @ ''_'' @ uid @ ''.png'')"
proof -
  define root where "root = fst (splitext f)"
  define ext1 where "ext1 = snd (splitext f)"
  define stem where "stem = fst (splitext root)"
  define ext2 where "ext2 = snd (splitext root)"
  define uid where "uid = take 5 (uuid4_hex w k)"
  have s1: "f = root @ ext1" "is_extension ext1" "splitext f = (root, ext1)"
    using splitext_shape[of f] by (simp_all add: root_def ext1_def)
  have s2: "root = stem @ ext2" "is_extension ext2" "splitext root = (stem, ext2)"
    using splitext_shape[of root] by (simp_all add: stem_def ext2_def)
  have png: "lower ''png'' = ''png''"
    by (simp add: lower_def lower_char_def code_point_def)
  have cp: "compose_path w k self = Inr (join (target_dir self) (stem @ ''_'' @ uid @ ''.png''))"
    using assms(1,2) png by (simp add: compose_path_def Let_def stem_def root_def uid_def)
  have u: "length uid = 5" "list_all is_hex uid"
    using assms(3,4) by (auto simp: uid_def list_all_iff dest: in_set_takeD)
  have base: "basename (join (target_dir self) (stem @ ''_'' @ uid @ ''.png''))
              = stem @ ''_'' @ uid @ ''.png''" if "CHR ''/'' \<notin> set f"
  proof -
    have "set stem \<subseteq> set f"
      using splitext_root_subset[of f] splitext_root_subset[of root]
      by (auto simp: stem_def root_def)
    then have "CHR ''/'' \<notin> set stem" using that by blast
    moreover have "CHR ''/'' \<notin> set uid"
      using u(2) is_hex_not_slash by (auto simp: list_all_iff)
    ultimately have "CHR ''/'' \<notin> set (stem @ ''_'' @ uid @ ''.png'')" by simp
    then show ?thesis by (rule basename_join)
  qed
  show ?thesis
  proof (rule exI[of _ stem], rule exI[of _ ext2], rule exI[of _ ext1], rule exI[of _ uid],
      intro conjI)
    show "f = stem @ ext2 @ ext1" using s1(1) s2(1) by simp
    show "splitext f = (stem @ ext2, ext1)" using s1(3) s2(1) by simp
    show "splitext (stem @ ext2) = (stem, ext2)" using s2(1,3) by simp
    show "CHR ''/'' \<notin> set f \<longrightarrow>
      basename (join (target_dir self) (stem @ ''_'' @ uid @ ''.png'')) = stem @ ''_'' @ uid @ ''.png''"
      using base by blast
    show "uid = take 5 (uuid4_hex w k)" by (rule uid_def)
  qed (simp_all add: cp s1 s2 u)
qed

text \<open>
  Claim C6: \<open>__init__\<close> leaves the target directory in existence, creating it only
  when it is missing. Every path that \<open>_compose_path\<close> gives for a patcher so made is
  the target directory joined with \<open>stem_uid.png\<close>: \<open>stem\<close> is the slide file name
  without its last two extensions (\<open>splitext\<close> applied twice), and \<open>uid\<close> is the
  first five characters of the hexadecimal string of a fresh uuid. For a file name
  without a slash (a base name), that name is the base name of the composed path.
\<close>

theorem composed_path_form:
  "(dir \<in> dirs env \<or> makedirs_error = None \<longrightarrow>
      (\<exists>self0 env'. OfflinePatcher_init makedirs_error env files dir tissue = Inr (self0, env'))) \<and>
   (OfflinePatcher_init makedirs_error env files dir tissue = Inr (self0, env') \<longrightarrow>
      dir \<in> dirs env' \<and> dirs env' = insert dir (dirs env) \<and> (dir \<in> dirs env \<longrightarrow> env' = env) \<and>
      (length (uuid4_hex w k) = 32 \<and> list_all is_hex (uuid4_hex w k) \<longrightarrow>
         (\<exists>stem ext2 ext1 uid.
            compose_path w k (self0\<lparr>filename := Some f, patch := pp\<rparr>)
              = Inr (join dir (stem @ ''_'' @ uid @ ''.png'')) \<and>
            f = stem @ ext2 @ ext1 \<and> is_extension ext2 \<and> is_extension ext1 \<and>
            splitext f = (stem @ ext2, ext1) \<and> splitext (stem @ ext2) = (stem, ext2) \<and>
            uid = take 5 (uuid4_hex w k) \<and> length uid = 5 \<and> list_all is_hex uid \<and>
            (CHR ''/'' \<notin> set f \<longrightarrow>
               basename (join dir (stem @ ''_'' @ uid @ ''.png''))
               = stem @ ''_'' @ uid @ ''.png''))))"
proof (intro conjI impI)
  assume "dir \<in> dirs env \<or> makedirs_error = None"
  then show "\<exists>self0 env'. OfflinePatcher_init makedirs_error env files dir tissue = Inr (self0, env')"
    by (auto simp: OfflinePatcher_init_def Let_def)
next
  assume init: "OfflinePatcher_init makedirs_error env files dir tissue = Inr (self0, env')"
  note fields = OfflinePatcher_init_fields[OF init]
  show "dir \<in> dirs env'" "dirs env' = insert dir (dirs env)" using fields by simp_all
  show "env' = env" if "dir \<in> dirs env" using fields that by simp
  assume hex: "length (uuid4_hex w k) = 32 \<and> list_all is_hex (uuid4_hex w k)"
  let ?self = "self0\<lparr>filename := Some f, patch := pp\<rparr>"
  have "filename ?self = Some f" "file_format ?self = ''png''" "target_dir ?self = dir"
    using fields by simp_all
  with compose_path_shape[of ?self f w k] hex
  show "\<exists>stem ext2 ext1 uid.
            compose_path w k ?self = Inr (join dir (stem @ ''_'' @ uid @ ''.png'')) \<and>
            f = stem @ ext2 @ ext1 \<and> is_extension ext2 \<and> is_extension ext1 \<and>
            splitext f = (stem @ ext2, ext1) \<and> splitext (stem @ ext2) = (stem, ext2) \<and>
            uid = take 5 (uuid4_hex w k) \<and> length uid = 5 \<and> list_all is_hex uid \<and>
            (CHR ''/'' \<notin> set f \<longrightarrow>
               basename (join dir (stem @ ''_'' @ uid @ ''.png''))
               = stem @ ''_'' @ uid @ ''.png'')"
    by simp
qed

text \<open>Equations that evaluate paths on literals.\<close>

lemmas path_eval = rfind_def basename_def splitext_def join_def compose_path_def
  lower_def lower_char_def code_point_def is_hex_def is_digit_def Let_def

theorem composed_path_form_witness:
  "OfflinePatcher_init None empty_env one_slide ''patches'' True
     = Inr (example_patcher, empty_env\<lparr>dirs := {''patches''}\<rparr>) \<and>
   compose_path failing_world (Draw 0 0)
     (example_patcher\<lparr>filename := Some ''TCGA-01.abc.svs'', patch := Some 7\<rparr>)
     = Inr ''patches/TCGA-01_01234.png'' \<and>
   splitext ''TCGA-01.abc.svs'' = (''TCGA-01.abc'', ''.svs'') \<and>
   splitext ''TCGA-01.abc'' = (''TCGA-01'', ''.abc'') \<and>
   basename ''patches/TCGA-01_01234.png'' = ''TCGA-01_01234.png''"
proof -
  have 1: "OfflinePatcher_init None empty_env one_slide ''patches'' True
     = Inr (example_patcher, empty_env\<lparr>dirs := {''patches''}\<rparr>)"
    by (simp add: OfflinePatcher_init_def example_patcher_def empty_env_def)
  have 2: "length (uuid4_hex failing_world (Draw 0 0)) = 32 \<and>
           list_all is_hex (uuid4_hex failing_world (Draw 0 0))"
    by (simp add: failing_world_def path_eval)
  have 3: "compose_path failing_world (Draw 0 0)
     (example_patcher\<lparr>filename := Some ''TCGA-01.abc.svs'', patch := Some 7\<rparr>)
     = Inr ''patches/TCGA-01_01234.png''"
    by (simp add: failing_world_def example_patcher_def path_eval)
  have 4: "splitext ''TCGA-01.abc.svs'' = (''TCGA-01.abc'', ''.svs'')"
    "splitext ''TCGA-01.abc'' = (''TCGA-01'', ''.abc'')"
    "basename ''patches/TCGA-01_01234.png'' = ''TCGA-01_01234.png''"
    by (simp_all add: path_eval)
  show ?thesis
    using 1 2 3 4
      composed_path_form[where dir = "''patches''" and env = empty_env
        and makedirs_error = None and files = one_slide and tissue = True
        and ?self0.0 = example_patcher and env' = "empty_env\<lparr>dirs := {''patches''}\<rparr>"
        and w = failing_world and k = "Draw 0 0" and f = "''TCGA-01.abc.svs''"
        and pp = "Some 7"]
    by simp
qed


subsection \<open>The loops of run\<close>

lemma compose_path_fields:
  "filename s1 = filename s2 \<Longrightarrow> target_dir s1 = target_dir s2 \<Longrightarrow>
   file_format s1 = file_format s2 \<Longrightarrow> compose_path w k s1 = compose_path w k s2"
  by (simp add: compose_path_def cong: option.case_cong)

lemma outcome_config:
  assumes "config self' = config self"
  shows "outcome w self' k sl = outcome w self k sl"
proof -
  have "compose_path w k (self'\<lparr>filename := Some f\<rparr>) = compose_path w k (self\<lparr>filename := Some f\<rparr>)"
    for f using assms by (intro compose_path_fields) (simp_all add: config_def)
  moreover have "patch_gen self' = patch_gen self" using assms by (simp add: config_def)
  ultimately show ?thesis
    by (simp add: outcome_def cong: sum.case_cong prod.case_cong)
qed

lemma outcome_no_interrupt:
  "interrupt_free w \<Longrightarrow> outcome w self k sl \<noteq> Inl KeyboardInterrupt"
  by (auto simp: outcome_def interrupt_free_def get_random_tissue_patch_def get_random_patch_def
      unpack_slide_def unpack_result_def compose_path_def Let_def
      split: sum.splits option.splits result.splits slide.splits prod.splits if_splits)

lemma attempt_cases:
  "(\<exists>file_path p self'.
      outcome w self k sl = Inr (file_path, p) \<and>
      attempt w k sl (self, env)
        = (None, self', env\<lparr>written := written env @ [(file_path, p)]\<rparr>) \<and>
      config self' = config self) \<or>
   (\<exists>e self'.
      outcome w self k sl = Inl e \<and>
      attempt w k sl (self, env) = (Some e, self', env) \<and>
      config self' = config self)"
proof -
  define got where "got = (if random_tissue_patch (patch_gen self)
            then get_random_tissue_patch w k sl
            else get_random_patch w k (patch_gen self) sl)"
  show ?thesis
  proof (cases got)
    case (Inl e)
    then show ?thesis by (simp add: attempt_def outcome_def got_def[symmetric])
  next
    case (Inr r)
    show ?thesis
    proof (cases "unpack_result r")
      case (Inl e)
      then show ?thesis using Inr by (simp add: attempt_def outcome_def got_def[symmetric])
    next
      case unp: (Inr pf)
      obtain p f where pf: "pf = (p, f)" by (cases pf)
      let ?self = "self\<lparr>filename := Some f, patch := Some p\<rparr>"
      have cp: "compose_path w k ?self = compose_path w k (self\<lparr>filename := Some f\<rparr>)"
        by (intro compose_path_fields) simp_all
      have cfg: "config ?self = config self" by (simp add: config_def)
      show ?thesis
      proof (cases "compose_path w k (self\<lparr>filename := Some f\<rparr>)")
        case (Inl e)
        then show ?thesis using Inr unp pf cp cfg
          by (simp add: attempt_def outcome_def got_def[symmetric])
      next
        case (Inr file_path)
        then show ?thesis using \<open>got = Inr r\<close> unp pf cp cfg
          by (cases "save_error w k file_path")
            (simp_all add: attempt_def outcome_def got_def[symmetric] save_def)
      qed
    qed
  qed
qed

lemma kept_simps:
  "kept [] = []"
  "kept (Inr x # os) = x # kept os"
  "kept (Inl e # os) = []"
  by (simp_all add: kept_def)

lemma progress_lines_Nil: "progress_lines num sl j [] = []"
  by (simp add: progress_lines_def)

lemma progress_lines_Inl:
  "progress_lines num sl j (Inl e # os) = [Progress (int j + 1) num, PatchFailed (int j + 1) sl e]"
  by (simp add: progress_lines_def)

lemma progress_lines_Inr:
  "progress_lines num sl j (Inr x # os) = Progress (int j + 1) num # progress_lines num sl (Suc j) os"
proof -
  have 1: "j + min (length (Inr x # os)) (length (takeWhile (\<lambda>r. \<not> isl r) (Inr x # os)) + 1)
           = j + Suc (min (length os) (length (takeWhile (\<lambda>r. \<not> isl r) os) + 1))"
    by simp
  have 2: "[j..<j + Suc c] = j # [Suc j..<Suc j + c]" for c
    by (simp add: upt_conv_Cons)
  show ?thesis
    unfolding progress_lines_def Let_def 1 2 by simp
qed

lemmas progress_lines_simps = progress_lines_Nil progress_lines_Inl progress_lines_Inr

text \<open>The inner loop, from draw \<open>j\<close> on with \<open>m\<close> draws left.\<close>

lemma draws_closed:
  assumes "interrupt_free w"
  shows "config self1 = config self \<Longrightarrow>
     os = map (\<lambda>c. outcome w self (Draw s c) sl) [j..<j + m] \<Longrightarrow>
     \<exists>self'.
       draws w num s sl m j (self1, env)
         = (None, self',
            env\<lparr>written := written env @ kept os,
                stdout := stdout env @ progress_lines num sl j os\<rparr>) \<and>
       config self' = config self"
proof (induction m arbitrary: j self1 env os)
  case 0
  then show ?case by (simp add: kept_simps progress_lines_simps)
next
  case (Suc m)
  let ?env = "print (Progress (int j + 1) num) env"
  define os' where "os' = map (\<lambda>c. outcome w self (Draw s c) sl) [Suc j..<Suc j + m]"
  have "[j..<j + Suc m] = j # [Suc j..<Suc j + m]" by (simp add: upt_conv_Cons)
  then have os: "os = outcome w self (Draw s j) sl # os'"
    using Suc.prems(2) by (simp only: os'_def list.map)
  have same: "outcome w self1 (Draw s j) sl = outcome w self (Draw s j) sl"
    using Suc.prems(1) by (rule outcome_config)
  from attempt_cases[of w self1 "Draw s j" sl ?env]
  show ?case
  proof (elim disjE exE conjE)
    fix file_path p self'
    assume ok: "outcome w self1 (Draw s j) sl = Inr (file_path, p)"
      and att: "attempt w (Draw s j) sl (self1, ?env)
                 = (None, self', ?env\<lparr>written := written ?env @ [(file_path, p)]\<rparr>)"
      and cfg: "config self' = config self1"
    let ?env' = "?env\<lparr>written := written ?env @ [(file_path, p)]\<rparr>"
    have cfg': "config self' = config self" using cfg Suc.prems(1) by simp
    from Suc.IH[OF cfg' os'_def, of ?env']
    obtain self'' where
      rest: "draws w num s sl m (Suc j) (self', ?env')
        = (None, self'',
           ?env'\<lparr>written := written ?env' @ kept os',
                  stdout := stdout ?env' @ progress_lines num sl (Suc j) os'\<rparr>)"
      and cfg'': "config self'' = config self"
      by blast
    have "draws w num s sl (Suc m) j (self1, env) = draws w num s sl m (Suc j) (self', ?env')"
      using att by simp
    also note rest
    finally show ?thesis
      using cfg'' ok same os
      by (intro exI[of _ self'']) (simp add: print_def kept_simps progress_lines_simps)
  next
    fix e self'
    assume bad: "outcome w self1 (Draw s j) sl = Inl e"
      and att: "attempt w (Draw s j) sl (self1, ?env) = (Some e, self', ?env)"
      and cfg: "config self' = config self1"
    have "e \<noteq> KeyboardInterrupt"
      using outcome_no_interrupt[OF assms, of self1 "Draw s j" sl] bad by auto
    then have exc: "is_Exception e" by (simp add: is_Exception_def)
    have "draws w num s sl (Suc m) j (self1, env)
          = (None, self', print (PatchFailed (int j + 1) sl e) ?env)"
      using att exc by simp
    then show ?thesis
      using cfg Suc.prems(1) bad same os
      by (intro exI[of _ self']) (simp add: print_def kept_simps progress_lines_simps)
  qed
qed

text \<open>The outer loop, from the slide of index \<open>s\<close> on.\<close>

lemma slides_closed:
  assumes "interrupt_free w"
  shows "config self1 = config self \<Longrightarrow> list_all is_path rest \<Longrightarrow>
     \<exists>self'.
       slides_loop w num s rest (self1, env)
         = (None, self',
            env\<lparr>written := written env @
                   concat (map (\<lambda>(t, sl). saved_files w self num t sl) (enumerate s rest)),
                stdout := stdout env @
                   concat (map (\<lambda>(t, sl). Processing (slide_name sl) # printed_lines w self num t sl)
                     (enumerate s rest))\<rparr>) \<and>
       config self' = config self"
proof (induction rest arbitrary: s self1 env)
  case Nil
  then show ?case by simp
next
  case (Cons sl rest)
  then obtain f where f: "sl = Path f" by (cases sl) (simp_all add: is_path_def)
  let ?env = "print (Processing (basename f)) env"
  have "outcomes w self num s sl = map (\<lambda>c. outcome w self (Draw s c) sl) [0..<0 + nat num]"
    by (simp add: outcomes_def)
  from draws_closed[OF assms Cons.prems(1) this, of num ?env]
  obtain self' where
    inner: "draws w num s sl (nat num) 0 (self1, ?env)
      = (None, self',
         ?env\<lparr>written := written ?env @ kept (outcomes w self num s sl),
                stdout := stdout ?env @ progress_lines num sl 0 (outcomes w self num s sl)\<rparr>)"
    and cfg: "config self' = config self"
    by blast
  let ?env' = "?env\<lparr>written := written ?env @ kept (outcomes w self num s sl),
                stdout := stdout ?env @ progress_lines num sl 0 (outcomes w self num s sl)\<rparr>"
  have rest: "list_all is_path rest" using Cons.prems(2) by simp
  from Cons.IH[OF cfg rest, of "s + 1" ?env']
  obtain self'' where
    outer: "slides_loop w num (s + 1) rest (self', ?env')
      = (None, self'',
         ?env'\<lparr>written := written ?env' @
                   concat (map (\<lambda>(t, sl). saved_files w self num t sl) (enumerate (s + 1) rest)),
                stdout := stdout ?env' @
                   concat (map (\<lambda>(t, sl). Processing (slide_name sl) # printed_lines w self num t sl)
                     (enumerate (s + 1) rest))\<rparr>)"
    and cfg': "config self'' = config self"
    by blast
  have "slides_loop w num s (sl # rest) (self1, env) = slides_loop w num (s + 1) rest (self', ?env')"
    using f inner by simp
  also note outer
  finally show ?case
    using cfg' f
    by (intro exI[of _ self''])
      (simp add: print_def saved_files_def printed_lines_def slide_name_def)
qed

lemma run_closed:
  assumes "interrupt_free w" and "list_all is_path (patcher_slide_files self)"
  shows "\<exists>self'.
     run w num self env
       = (None, self',
          env\<lparr>written := written env @
                 concat (map (\<lambda>(s, sl). saved_files w self num s sl)
                   (enumerate 0 (patcher_slide_files self))),
              stdout := stdout env @ [Banner] @
                 concat (map (\<lambda>(s, sl). Processing (slide_name sl) # printed_lines w self num s sl)
                   (enumerate 0 (patcher_slide_files self))) @ [Newline]\<rparr>) \<and>
     config self' = config self"
proof -
  from slides_closed[OF assms(1) refl assms(2), where num = num and s = 0
      and env = "print Banner env"]
  obtain self' where
    loop: "slides_loop w num 0 (patcher_slide_files self) (self, print Banner env)
      = (None, self',
         (print Banner env)\<lparr>written := written (print Banner env) @
                   concat (map (\<lambda>(t, sl). saved_files w self num t sl)
                     (enumerate 0 (patcher_slide_files self))),
                stdout := stdout (print Banner env) @
                   concat (map (\<lambda>(t, sl). Processing (slide_name sl) # printed_lines w self num t sl)
                     (enumerate 0 (patcher_slide_files self)))\<rparr>)"
    and cfg: "config self' = config self"
    by blast
  show ?thesis
    using loop cfg by (intro exI[of _ self']) (simp add: run_def print_def)
qed

lemma kept_length: "length (kept os) \<le> length os"
  by (simp add: kept_def) (metis length_takeWhile_le)

lemma run_pair_raises:
  "patcher_slide_files self = Pair f x # rest \<Longrightarrow>
     run w num self env = (Some TypeError, self, print Banner env)"
  by (simp add: run_def)

lemma kept_stop:
  assumes "j < length os" and "isl (os ! j)"
  shows "length (kept os) \<le> j"
proof (rule ccontr)
  assume "\<not> length (kept os) \<le> j"
  then have lt: "j < length (takeWhile (\<lambda>r. \<not> isl r) os)" by (simp add: kept_def)
  then have "takeWhile (\<lambda>r. \<not> isl r) os ! j \<in> set (takeWhile (\<lambda>r. \<not> isl r) os)"
    by (rule nth_mem)
  then have "\<not> isl (takeWhile (\<lambda>r. \<not> isl r) os ! j)" by (rule set_takeWhileD[THEN conjunct2])
  then show False using lt assms(2) by (simp add: takeWhile_nth)
qed

lemma kept_nth:
  assumes "j < length os" and "\<forall>c\<le>j. \<not> isl (os ! c)"
  shows "j < length (kept os) \<and> kept os ! j = projr (os ! j)"
proof -
  have "Suc j \<le> length (takeWhile (\<lambda>r. \<not> isl r) os)"
    using assms by (intro length_takeWhile_less_P_nth) auto
  then have lt: "j < length (takeWhile (\<lambda>r. \<not> isl r) os)" by simp
  then show ?thesis by (simp add: kept_def takeWhile_nth)
qed


text \<open>A draw in tissue mode on a plain path, by what the library answers.\<close>

lemma outcome_tissue_saved:
  "random_tissue_patch (patch_gen self) \<Longrightarrow> read_random_tissue_patch w k f = Inr (Some p) \<Longrightarrow>
   compose_path w k (self\<lparr>filename := Some (basename f)\<rparr>) = Inr file_path \<Longrightarrow>
   save_error w k file_path = None \<Longrightarrow>
     outcome w self k (Path f) = Inr (file_path, p)"
  by (simp add: outcome_def get_random_tissue_patch_def unpack_result_def)

lemma outcome_tissue_raised:
  "random_tissue_patch (patch_gen self) \<Longrightarrow> read_random_tissue_patch w k f = Inl e \<Longrightarrow>
     outcome w self k (Path f) = Inl e"
  by (simp add: outcome_def get_random_tissue_patch_def)

lemma example_first_outcome:
  "outcome first_draw_fails example_patcher (Draw 0 0) (Path ''slides/TCGA-01.abc.svs'') = Inl OSError"
proof (rule outcome_tissue_raised)
  show "random_tissue_patch (patch_gen example_patcher)"
    by (simp add: example_patcher_def PatchGenerator_init_def reset_def)
  show "read_random_tissue_patch first_draw_fails (Draw 0 0) ''slides/TCGA-01.abc.svs'' = Inl OSError"
    by (simp add: first_draw_fails_def)
qed

lemma example_outcome:
  "0 < j \<Longrightarrow> outcome first_draw_fails example_patcher (Draw 0 j) (Path ''slides/TCGA-01.abc.svs'')
     = Inr (''patches/TCGA-01_01234.png'', 7)"
proof (rule outcome_tissue_saved)
  show "random_tissue_patch (patch_gen example_patcher)"
    by (simp add: example_patcher_def PatchGenerator_init_def reset_def)
  show "0 < j \<Longrightarrow> read_random_tissue_patch first_draw_fails (Draw 0 j) ''slides/TCGA-01.abc.svs''
        = Inr (Some 7)"
    by (simp add: first_draw_fails_def)
  have "basename ''slides/TCGA-01.abc.svs'' = ''TCGA-01.abc.svs''"
    by (simp add: path_eval)
  then show "compose_path first_draw_fails (Draw 0 j)
      (example_patcher\<lparr>filename := Some (basename ''slides/TCGA-01.abc.svs'')\<rparr>)
      = Inr ''patches/TCGA-01_01234.png''"
    by (simp add: first_draw_fails_def example_patcher_def path_eval)
  show "save_error first_draw_fails (Draw 0 j) ''patches/TCGA-01_01234.png'' = None"
    by (simp add: first_draw_fails_def)
qed

text \<open>
  Claim C8 says that \<open>run\<close> skips the rest of a slide's draws on repeated failure. It
  skips them after a single failure. With one slide and \<open>n = 3\<close>, in a world where only
  the first draw fails, \<open>run\<close> makes that one draw, prints its failure and writes no
  file, although the second and the third draw would each have written a patch.
\<close>

theorem run_skips_after_one_failure:
  "fst (run first_draw_fails 3 example_patcher empty_env) = None \<and>
   written (snd (snd (run first_draw_fails 3 example_patcher empty_env))) = [] \<and>
   stdout (snd (snd (run first_draw_fails 3 example_patcher empty_env)))
     = [Banner, Processing ''TCGA-01.abc.svs'', Progress 1 3,
        PatchFailed 1 (Path ''slides/TCGA-01.abc.svs'') OSError, Newline] \<and>
   outcome first_draw_fails example_patcher (Draw 0 1) (Path ''slides/TCGA-01.abc.svs'')
     = Inr (''patches/TCGA-01_01234.png'', 7) \<and>
   outcome first_draw_fails example_patcher (Draw 0 2) (Path ''slides/TCGA-01.abc.svs'')
     = Inr (''patches/TCGA-01_01234.png'', 7)"
proof -
  have 1: "interrupt_free first_draw_fails"
    by (simp add: interrupt_free_def first_draw_fails_def)
  have files: "patcher_slide_files example_patcher = [Path ''slides/TCGA-01.abc.svs'']"
    by (simp add: example_patcher_def one_slide_def)
  then have 2: "list_all is_path (patcher_slide_files example_patcher)"
    by (simp add: is_path_def)
  have upt3: "[0..<nat 3] = [0, 1, 2]"
    by (simp add: upt_conv_Cons)
  have os: "outcomes first_draw_fails example_patcher 3 0 (Path ''slides/TCGA-01.abc.svs'')
            = [Inl OSError, Inr (''patches/TCGA-01_01234.png'', 7),
               Inr (''patches/TCGA-01_01234.png'', 7)]"
    unfolding outcomes_def upt3
    using example_first_outcome example_outcome[of 1] example_outcome[of 2] by simp
  have name: "slide_name (Path ''slides/TCGA-01.abc.svs'') = ''TCGA-01.abc.svs''"
    by (simp add: slide_name_def path_eval)
  have saved: "saved_files first_draw_fails example_patcher 3 0 (Path ''slides/TCGA-01.abc.svs'') = []"
    and lines: "printed_lines first_draw_fails example_patcher 3 0 (Path ''slides/TCGA-01.abc.svs'')
      = [Progress 1 3, PatchFailed 1 (Path ''slides/TCGA-01.abc.svs'') OSError]"
    by (simp_all add: saved_files_def printed_lines_def os kept_simps progress_lines_simps)
  from run_closed[OF 1 2, of 3 empty_env] obtain self' where
    "run first_draw_fails 3 example_patcher empty_env
       = (None, self',
          empty_env\<lparr>written := written empty_env @
                 concat (map (\<lambda>(s, sl). saved_files first_draw_fails example_patcher 3 s sl)
                   (enumerate 0 (patcher_slide_files example_patcher))),
              stdout := stdout empty_env @ [Banner] @
                 concat (map (\<lambda>(s, sl). Processing (slide_name sl) #
                     printed_lines first_draw_fails example_patcher 3 s sl)
                   (enumerate 0 (patcher_slide_files example_patcher))) @ [Newline]\<rparr>)"
    by blast
  then have "fst (run first_draw_fails 3 example_patcher empty_env) = None"
    and "written (snd (snd (run first_draw_fails 3 example_patcher empty_env))) = []"
    and "stdout (snd (snd (run first_draw_fails 3 example_patcher empty_env)))
     = [Banner, Processing ''TCGA-01.abc.svs'', Progress 1 3,
        PatchFailed 1 (Path ''slides/TCGA-01.abc.svs'') OSError, Newline]"
    by (simp_all add: files saved lines name empty_env_def)
  then show ?thesis using example_outcome[of 1] example_outcome[of 2] by simp
qed

text \<open>
  Claim C8, amended: for every list of slides given as plain paths and every \<open>n\<close>, when
  no call is interrupted from the keyboard, \<open>run(n)\<close> returns normally, having processed
  the slides in list order. For each slide it makes the draws in order, at most \<open>n\<close> of
  them, and saves the patch of every draw up to the first draw that fails (in the library,
  in unpacking, or in saving); at that first failure it skips the rest of the slide's
  draws and moves on to the next slide. The files written and the lines printed are
  exactly those of \<open>saved_files\<close> and \<open>printed_lines\<close>, slide after slide.
\<close>

theorem run_draws_until_first_failure:
  assumes "interrupt_free w" and "list_all is_path (patcher_slide_files self)"
  shows "(\<exists>self'.
       run w num self env
         = (None, self',
            env\<lparr>written := written env @
                   concat (map (\<lambda>(s, sl). saved_files w self num s sl)
                     (enumerate 0 (patcher_slide_files self))),
                stdout := stdout env @ [Banner] @
                   concat (map (\<lambda>(s, sl). Processing (slide_name sl) # printed_lines w self num s sl)
                     (enumerate 0 (patcher_slide_files self))) @ [Newline]\<rparr>) \<and>
       config self' = config self) \<and>
     (\<forall>s sl. length (saved_files w self num s sl) \<le> nat num) \<and>
     (\<forall>s sl j. j < nat num \<and> isl (outcome w self (Draw s j) sl)
        \<longrightarrow> length (saved_files w self num s sl) \<le> j) \<and>
     (\<forall>s sl j. j < nat num \<and> (\<forall>c\<le>j. \<not> isl (outcome w self (Draw s c) sl))
        \<longrightarrow> j < length (saved_files w self num s sl) \<and>
            saved_files w self num s sl ! j = projr (outcome w self (Draw s j) sl))"
proof (intro conjI allI impI)
  show "\<exists>self'.
       run w num self env
         = (None, self',
            env\<lparr>written := written env @
                   concat (map (\<lambda>(s, sl). saved_files w self num s sl)
                     (enumerate 0 (patcher_slide_files self))),
                stdout := stdout env @ [Banner] @
                   concat (map (\<lambda>(s, sl). Processing (slide_name sl) # printed_lines w self num s sl)
                     (enumerate 0 (patcher_slide_files self))) @ [Newline]\<rparr>) \<and>
       config self' = config self"
    using assms by (rule run_closed)
next
  fix s sl
  show "length (saved_files w self num s sl) \<le> nat num"
    using kept_length[of "outcomes w self num s sl"] by (simp add: saved_files_def outcomes_def)
next
  fix s sl j
  assume "j < nat num \<and> isl (outcome w self (Draw s j) sl)"
  then show "length (saved_files w self num s sl) \<le> j"
    using kept_stop[of j "outcomes w self num s sl"] by (simp add: saved_files_def outcomes_def)
next
  fix s sl j
  assume a: "j < nat num \<and> (\<forall>c\<le>j. \<not> isl (outcome w self (Draw s c) sl))"
  then have "j < length (outcomes w self num s sl)"
    and "\<forall>c\<le>j. \<not> isl (outcomes w self num s sl ! c)"
    by (simp_all add: outcomes_def)
  from kept_nth[OF this] a
  show "j < length (saved_files w self num s sl)"
    and "saved_files w self num s sl ! j = projr (outcome w self (Draw s j) sl)"
    by (simp_all add: saved_files_def outcomes_def)
qed

lemma two_slide_outcomes:
  "outcome first_draw_fails two_slide_patcher (Draw 0 0) (Path ''slides/a.svs'') = Inl OSError"
  "outcome first_draw_fails two_slide_patcher (Draw 1 0) (Path ''slides/b.svs'')
     = Inr (''patches/b_01234.png'', 7)"
  "outcome first_draw_fails two_slide_patcher (Draw 1 1) (Path ''slides/b.svs'')
     = Inr (''patches/b_fedcb.png'', 7)"
proof -
  have t: "random_tissue_patch (patch_gen two_slide_patcher)"
    by (simp add: two_slide_patcher_def PatchGenerator_init_def reset_def)
  have b: "basename ''slides/b.svs'' = ''b.svs''"
    by (simp add: path_eval)
  show "outcome first_draw_fails two_slide_patcher (Draw 0 0) (Path ''slides/a.svs'') = Inl OSError"
    using t by (rule outcome_tissue_raised) (simp add: first_draw_fails_def)
  show "outcome first_draw_fails two_slide_patcher (Draw 1 0) (Path ''slides/b.svs'')
     = Inr (''patches/b_01234.png'', 7)"
    using t
  proof (rule outcome_tissue_saved)
    show "compose_path first_draw_fails (Draw 1 0)
        (two_slide_patcher\<lparr>filename := Some (basename ''slides/b.svs'')\<rparr>)
        = Inr ''patches/b_01234.png''"
      using b by (simp add: first_draw_fails_def two_slide_patcher_def path_eval)
  qed (simp_all add: first_draw_fails_def)
  show "outcome first_draw_fails two_slide_patcher (Draw 1 1) (Path ''slides/b.svs'')
     = Inr (''patches/b_fedcb.png'', 7)"
    using t
  proof (rule outcome_tissue_saved)
    show "compose_path first_draw_fails (Draw 1 1)
        (two_slide_patcher\<lparr>filename := Some (basename ''slides/b.svs'')\<rparr>)
        = Inr ''patches/b_fedcb.png''"
      using b by (simp add: first_draw_fails_def two_slide_patcher_def path_eval)
  qed (simp_all add: first_draw_fails_def)
qed

theorem run_draws_until_first_failure_witness:
  "interrupt_free first_draw_fails \<and>
   list_all is_path (patcher_slide_files two_slide_patcher) \<and>
   fst (run first_draw_fails 2 two_slide_patcher empty_env) = None \<and>
   written (snd (snd (run first_draw_fails 2 two_slide_patcher empty_env)))
     = [(''patches/b_01234.png'', 7), (''patches/b_fedcb.png'', 7)] \<and>
   stdout (snd (snd (run first_draw_fails 2 two_slide_patcher empty_env)))
     = [Banner, Processing ''a.svs'', Progress 1 2,
        PatchFailed 1 (Path ''slides/a.svs'') OSError,
        Processing ''b.svs'', Progress 1 2, Progress 2 2, Newline] \<and>
   saved_files first_draw_fails two_slide_patcher 2 0 (Path ''slides/a.svs'') = [] \<and>
   saved_files first_draw_fails two_slide_patcher 2 1 (Path ''slides/b.svs'')
     = [(''patches/b_01234.png'', 7), (''patches/b_fedcb.png'', 7)]"
proof -
  have 1: "interrupt_free first_draw_fails"
    by (simp add: interrupt_free_def first_draw_fails_def)
  have 2: "list_all is_path (patcher_slide_files two_slide_patcher)"
    by (simp add: two_slide_patcher_def is_path_def)
  have files: "patcher_slide_files two_slide_patcher = [Path ''slides/a.svs'', Path ''slides/b.svs'']"
    by (simp add: two_slide_patcher_def)
  have upt2: "[0..<nat 2] = [0, 1]"
    by (simp add: upt_conv_Cons)
  have o0: "outcomes first_draw_fails two_slide_patcher 2 0 (Path ''slides/a.svs'')
            = [Inl OSError, outcome first_draw_fails two_slide_patcher (Draw 0 1) (Path ''slides/a.svs'')]"
    unfolding outcomes_def upt2 using two_slide_outcomes(1) by simp
  have o1: "outcomes first_draw_fails two_slide_patcher 2 (Suc 0) (Path ''slides/b.svs'')
            = [Inr (''patches/b_01234.png'', 7), Inr (''patches/b_fedcb.png'', 7)]"
    unfolding outcomes_def upt2 using two_slide_outcomes(2,3) by simp
  have names: "slide_name (Path ''slides/a.svs'') = ''a.svs''"
    "slide_name (Path ''slides/b.svs'') = ''b.svs''"
    by (simp_all add: slide_name_def path_eval)
  have s0: "saved_files first_draw_fails two_slide_patcher 2 0 (Path ''slides/a.svs'') = []"
    and p0: "printed_lines first_draw_fails two_slide_patcher 2 0 (Path ''slides/a.svs'')
     = [Progress 1 2, PatchFailed 1 (Path ''slides/a.svs'') OSError]"
    by (simp_all add: saved_files_def printed_lines_def o0 kept_simps progress_lines_simps)
  have s1: "saved_files first_draw_fails two_slide_patcher 2 (Suc 0) (Path ''slides/b.svs'')
     = [(''patches/b_01234.png'', 7), (''patches/b_fedcb.png'', 7)]"
    and p1: "printed_lines first_draw_fails two_slide_patcher 2 (Suc 0) (Path ''slides/b.svs'')
     = [Progress 1 2, Progress 2 2]"
    by (simp_all add: saved_files_def printed_lines_def o1 kept_simps progress_lines_simps)
  have e: "enumerate 0 [Path ''slides/a.svs'', Path ''slides/b.svs'']
           = [(0, Path ''slides/a.svs''), (Suc 0, Path ''slides/b.svs'')]"
    by simp
  from run_draws_until_first_failure[OF 1 2, of 2 empty_env] obtain self' where
    "run first_draw_fails 2 two_slide_patcher empty_env
       = (None, self',
          empty_env\<lparr>written := written empty_env @
                 concat (map (\<lambda>(s, sl). saved_files first_draw_fails two_slide_patcher 2 s sl)
                   (enumerate 0 (patcher_slide_files two_slide_patcher))),
              stdout := stdout empty_env @ [Banner] @
                 concat (map (\<lambda>(s, sl). Processing (slide_name sl) #
                     printed_lines first_draw_fails two_slide_patcher 2 s sl)
                   (enumerate 0 (patcher_slide_files two_slide_patcher))) @ [Newline]\<rparr>)"
    by blast
  then have "fst (run first_draw_fails 2 two_slide_patcher empty_env) = None"
    and "written (snd (snd (run first_draw_fails 2 two_slide_patcher empty_env)))
     = [(''patches/b_01234.png'', 7), (''patches/b_fedcb.png'', 7)]"
    and "stdout (snd (snd (run first_draw_fails 2 two_slide_patcher empty_env)))
     = [Banner, Processing ''a.svs'', Progress 1 2,
        PatchFailed 1 (Path ''slides/a.svs'') OSError,
        Processing ''b.svs'', Progress 1 2, Progress 2 2, Newline]"
    unfolding files e by (simp_all add: s0 s1 p0 p1 names empty_env_def)
  then show ?thesis using 1 2 s0 s1 by simp
qed

end
